theory Spec2Isabelle
  imports Complex_Main "HOL-Library.AList" "HOL-Library.Char_ord" "HOL-Library.List_Lexorder"
    "HOL-Library.Multiset"
begin

section \<open>JavaScript values\<close>

text \<open>
  The library receives grants, conditions, contexts and data as plain JavaScript values.
  A number is a double: besides the finite values (all of them rationals) there are
  \<open>NaN\<close> and the two infinities.  The fields of an object are kept in enumeration order.
\<close>

datatype number = NaN | PosInfinity | NegInfinity | Finite rat

datatype jsval =
    JUndefined
  | JNull
  | JBool bool
  | JNum number
  | JStr string
  | JArr "jsval list"
  | JObj "(string \<times> jsval) list"

text \<open>The operator \<open>!v\<close> of the language is \<open>\<not> truthy v\<close>: \<open>undefined\<close>, \<open>null\<close>,
  \<open>false\<close>, \<open>0\<close>, \<open>NaN\<close> and the empty string are falsy, every array and object is truthy.\<close>

fun truthy :: "jsval \<Rightarrow> bool" where
  "truthy JUndefined = False"
| "truthy JNull = False"
| "truthy (JBool b) = b"
| "truthy (JNum NaN) = False"
| "truthy (JNum PosInfinity) = True"
| "truthy (JNum NegInfinity) = True"
| "truthy (JNum (Finite q)) = (q \<noteq> 0)"
| "truthy (JStr s) = (s \<noteq> [])"
| "truthy (JArr xs) = True"
| "truthy (JObj fs) = True"

text \<open>Modelled from the spec: \<open>CommonUtil.type\<close> is not among the sources.  The callers
  compare its result with \<open>'object'\<close> and \<open>'array'\<close>, which the spec reads as "an object" and
  "a list"; the model returns the lower-case name of the kind of value.\<close>

fun CommonUtil_type :: "jsval \<Rightarrow> string" where
  "CommonUtil_type JUndefined = ''undefined''"
| "CommonUtil_type JNull = ''null''"
| "CommonUtil_type (JBool b) = ''boolean''"
| "CommonUtil_type (JNum n) = ''number''"
| "CommonUtil_type (JStr s) = ''string''"
| "CommonUtil_type (JArr xs) = ''array''"
| "CommonUtil_type (JObj fs) = ''object''"

text \<open>Modelled from the spec: \<open>ArrayUtil.toArray\<close> is not among the sources.  The operands
  of a combinator are "either an array or a mapping of sub-expressions": an array is the
  operand list itself, any other value is a single operand.\<close>

fun ArrayUtil_toArray :: "jsval \<Rightarrow> jsval list" where
  "ArrayUtil_toArray (JArr xs) = xs"
| "ArrayUtil_toArray v = [v]"

section \<open>Errors\<close>

text \<open>
  The source raises \<open>AccessControlError\<close> with a message; the model keeps the kind of
  failure under the name the specification gives it.  \<open>TypeError\<close> is the language's own
  error on reading a property of \<open>undefined\<close>.
\<close>

datatype error =
    InvalidGrantsFormat
  | CycleError
  | InvalidConditionArgs
  | UnknownPredicate
  | MissingRequiredField
  | TypeError

section \<open>The OR condition\<close>

text \<open>
  \<open>ConditionUtil.evaluate\<close>, which evaluates one operand, is not among the sources: it is a
  parameter.  It may raise, and the predicate functions it reaches may have effects, so it
  transforms a state \<open>'s\<close> of the world outside.
\<close>

type_synonym 's evaluator = "jsval \<Rightarrow> jsval \<Rightarrow> 's \<Rightarrow> (error + bool) \<times> 's"

text \<open>The loop \<open>for (let condition of conditions) result = result || await evaluate(...)\<close>:
  once \<open>result\<close> is true the right operand of \<open>||\<close> is not evaluated any more.\<close>

fun or_loop :: "'s evaluator \<Rightarrow> jsval \<Rightarrow> bool \<Rightarrow> jsval list \<Rightarrow> 's \<Rightarrow> (error + bool) \<times> 's" where
  "or_loop ev context result [] s = (Inr result, s)"
| "or_loop ev context result (condition # conditions) s =
     (if result then or_loop ev context True conditions s
      else (case ev condition context s of
              (Inl e, s') \<Rightarrow> (Inl e, s')
            | (Inr b, s') \<Rightarrow> or_loop ev context b conditions s'))"

definition OrCondition_evaluate :: "'s evaluator \<Rightarrow> jsval \<Rightarrow> jsval \<Rightarrow> 's \<Rightarrow> (error + bool) \<times> 's" where
  "OrCondition_evaluate ev args context s =
     (if \<not> truthy args then (Inr True, s)
      else if \<not> truthy context then (Inr False, s)
      else if CommonUtil_type args \<noteq> ''array'' \<and> CommonUtil_type args \<noteq> ''object''
      then (Inl InvalidConditionArgs, s)
      else or_loop ev context False (ArrayUtil_toArray args) s)"

text \<open>Evaluators used at concrete inputs: one that answers a constant and counts its
  calls, one that raises.\<close>

definition counting_evaluator :: "bool \<Rightarrow> nat evaluator" where
  "counting_evaluator b = (\<lambda>condition context n. (Inr b, Suc n))"

definition raising_evaluator :: "nat evaluator" where
  "raising_evaluator = (\<lambda>condition context n. (Inl UnknownPredicate, Suc n))"


section \<open>The grant store\<close>

text \<open>
  The field \<open>_grants\<close> of \<open>AccessControl\<close> maps a role name to the role's item: its grants,
  the roles it extends (\<open>$extend\<close>, absent until the role extends another) and its
  inheritance score.  An entry of \<open>$extend\<close> is a bare score or an object with a score and
  an optional condition.  Both mappings are association lists in the enumeration order of
  their keys.
\<close>

record grant =
  resource :: string
  action :: string
  attributes :: "string list"
  condition :: "jsval option"

datatype extension = Score int | Conditional int "jsval option"

record role_item =
  grants :: "grant list"
  extends :: "(string \<times> extension) list option"
  score :: int

type_synonym store = "(string \<times> role_item) list"

text \<open>The truthiness of an entry \<open>roleItem.$extend[role]\<close>: a bare score is a number, an
  object is always truthy.\<close>

fun extension_truthy :: "extension \<Rightarrow> bool" where
  "extension_truthy (Score n) = (n \<noteq> 0)"
| "extension_truthy (Conditional n c) = True"

text \<open>\<open>forEach\<close> with a callback that mutates the state and may raise: the first error
  ends the loop and the state stays as the calls before it left it.\<close>

fun forEach :: "('a \<Rightarrow> 's \<Rightarrow> error option \<times> 's) \<Rightarrow> 'a list \<Rightarrow> 's \<Rightarrow> error option \<times> 's" where
  "forEach f [] s = (None, s)"
| "forEach f (x # xs) s =
     (case f x s of
        (Some e, s') \<Rightarrow> (Some e, s')
      | (None, s') \<Rightarrow> forEach f xs s')"

subsection \<open>setGrants\<close>

text \<open>Modelled from the spec: \<open>CommonUtil.commitToGrants\<close> is not among the sources.  It
  commits one record of the flat list; it "fails with \<open>InvalidGrantsFormat\<close> when a record
  is missing \<open>role\<close>/\<open>resource\<close>/\<open>action\<close>", the attributes "default to \<open>["*"]\<close> when
  omitted", and "multiple entries with identical role/resource/action accumulate rather than
  overwrite".  A role is created on its first grant, with no extension and score 0.\<close>

definition new_role :: role_item where
  "new_role = \<lparr>grants = [], extends = None, score = 0\<rparr>"

definition record_attributes :: "(string \<times> jsval) list \<Rightarrow> string list" where
  "record_attributes fs =
     (case map_of fs ''attributes'' of
        Some (JArr xs) \<Rightarrow> concat (map (\<lambda>x. case x of JStr a \<Rightarrow> [a] | _ \<Rightarrow> []) xs)
      | _ \<Rightarrow> [''*''])"

definition add_grant :: "store \<Rightarrow> string \<Rightarrow> grant \<Rightarrow> store" where
  "add_grant g r gr =
     (let item = (case map_of g r of None \<Rightarrow> new_role | Some i \<Rightarrow> i)
      in AList.update r (item\<lparr>grants := grants item @ [gr]\<rparr>) g)"

definition commitToGrants :: "store \<Rightarrow> jsval \<Rightarrow> error + store" where
  "commitToGrants g item =
     (case item of
        JObj fs \<Rightarrow>
          (case (map_of fs ''role'', map_of fs ''resource'', map_of fs ''action'') of
             (Some (JStr r), Some (JStr res), Some (JStr act)) \<Rightarrow>
               Inr (add_grant g r
                     \<lparr>resource = res, action = act, attributes = record_attributes fs,
                      condition = map_of fs ''condition''\<rparr>)
           | _ \<Rightarrow> Inl InvalidGrantsFormat)
      | _ \<Rightarrow> Inl InvalidGrantsFormat)"

text \<open>The elements that \<open>grantsObject.forEach\<close> visits.\<close>

fun elements :: "jsval \<Rightarrow> jsval list" where
  "elements (JArr xs) = xs"
| "elements v = []"

text \<open>
  \<open>AccessControl.setGrants\<close>.  \<open>CommonUtil.normalizeGrantsObject\<close>, which is not among the
  sources, is a parameter.  The method first resets \<open>_grants\<close> to \<open>{}\<close>; the result is the
  error raised, if any, and the store the call leaves behind.
\<close>

definition setGrants :: "(jsval \<Rightarrow> error + store) \<Rightarrow> jsval \<Rightarrow> error option \<times> store" where
  "setGrants normalizeGrantsObject grantsObject =
     (let type = CommonUtil_type grantsObject in
      if type = ''object'' then
        (case normalizeGrantsObject grantsObject of
           Inl e \<Rightarrow> (Some e, [])
         | Inr g \<Rightarrow> (None, g))
      else if type = ''array'' then
        forEach (\<lambda>item g. case commitToGrants g item of
                             Inl e \<Rightarrow> (Some e, g)
                           | Inr g' \<Rightarrow> (None, g'))
          (elements grantsObject) []
      else (None, []))"

text \<open>A record of the flat list that lacks one of the three fields, and a normaliser
  that rejects every object, for concrete inputs.\<close>

definition missing_field :: "jsval \<Rightarrow> bool" where
  "missing_field item =
     (case item of
        JObj fs \<Rightarrow>
          map_of fs ''role'' = None \<or> map_of fs ''resource'' = None
          \<or> map_of fs ''action'' = None
      | _ \<Rightarrow> False)"

definition complete_record :: jsval where
  "complete_record =
     JObj [(''role'', JStr ''user''), (''resource'', JStr ''profile''), (''action'', JStr ''read'')]"

definition record_without_action :: jsval where
  "record_without_action = JObj [(''role'', JStr ''user''), (''resource'', JStr ''profile'')]"

definition rejecting_normalizer :: "jsval \<Rightarrow> error + store" where
  "rejecting_normalizer = (\<lambda>v. Inl InvalidGrantsFormat)"

subsection \<open>Role expansion\<close>

text \<open>Modelled from the spec: the role expansion of \<open>CommonUtil\<close> is not among the sources.
  "Given a starting role set, perform a traversal over \<open>$extend\<close>, collecting every
  transitively reachable role exactly once (a visited-set prevents reprocessing and
  silently tolerates pre-existing cycles)."  An extension is followed when \<open>follows\<close>
  accepts its entry; testing an entry may raise, and the error ends the traversal.\<close>

fun inherited :: "(extension \<Rightarrow> error + bool) \<Rightarrow> (string \<times> extension) list \<Rightarrow> error + string list" where
  "inherited follows [] = Inr []"
| "inherited follows ((name, x) # rest) =
     (case follows x of
        Inl e \<Rightarrow> Inl e
      | Inr b \<Rightarrow>
          (case inherited follows rest of
             Inl e \<Rightarrow> Inl e
           | Inr names \<Rightarrow> Inr (if b then name # names else names)))"

definition extensions_of :: "store \<Rightarrow> (extension \<Rightarrow> error + bool) \<Rightarrow> string \<Rightarrow> error + string list" where
  "extensions_of g follows r =
     (case map_of g r of
        None \<Rightarrow> Inr []
      | Some item \<Rightarrow>
          (case extends item of
             None \<Rightarrow> Inr []
           | Some ext \<Rightarrow> inherited follows ext))"

definition extension_names :: "store \<Rightarrow> string set" where
  "extension_names g =
     (\<Union>(r, item) \<in> set g. case extends item of None \<Rightarrow> {} | Some ext \<Rightarrow> fst ` set ext)"

function expandRoles ::
  "store \<Rightarrow> (extension \<Rightarrow> error + bool) \<Rightarrow> string list \<Rightarrow> string list \<Rightarrow> error + string list" where
  "expandRoles g follows [] visited = Inr visited"
| "expandRoles g follows (r # pending) visited =
     (if r \<in> set visited then expandRoles g follows pending visited
      else (case extensions_of g follows r of
              Inl e \<Rightarrow> Inl e
            | Inr names \<Rightarrow> expandRoles g follows (names @ pending) (visited @ [r])))"
  by pat_completeness auto
termination
proof (relation "measures
          [\<lambda>(g, follows, pending, visited). card ((extension_names g \<union> set pending) - set visited),
           \<lambda>(g, follows, pending, visited). length pending]")
  show "wf (measures
          [\<lambda>(g, follows, pending, visited). card ((extension_names g \<union> set pending) - set visited),
           \<lambda>(g, follows, pending, visited). length pending])"
    by simp
next
  fix g :: store and follows :: "extension \<Rightarrow> error + bool"
    and r :: string and pending visited :: "string list"
  assume "r \<in> set visited"
  then have "(extension_names g \<union> set pending) - set visited
             = (extension_names g \<union> set (r # pending)) - set visited"
    by auto
  then show "((g, follows, pending, visited), (g, follows, r # pending, visited))
        \<in> measures
          [\<lambda>(g, follows, pending, visited). card ((extension_names g \<union> set pending) - set visited),
           \<lambda>(g, follows, pending, visited). length pending]"
    by simp
next
  fix g :: store and follows :: "extension \<Rightarrow> error + bool"
    and r :: string and pending visited names :: "string list"
  assume fresh: "r \<notin> set visited" and ext: "extensions_of g follows r = Inr names"
  have inh: "set ns \<subseteq> fst ` set ext" if "inherited follows ext = Inr ns" for ext ns
    using that
    by (induction ext arbitrary: ns) (fastforce split: sum.splits if_splits)+
  have "set names \<subseteq> extension_names g"
  proof (cases "map_of g r")
    case None
    with ext show ?thesis by (simp add: extensions_of_def)
  next
    case (Some item)
    then have mem: "(r, item) \<in> set g" by (rule map_of_SomeD)
    show ?thesis
    proof (cases "extends item")
      case None
      with Some ext show ?thesis by (simp add: extensions_of_def)
    next
      case (Some m)
      with \<open>map_of g r = Some item\<close> ext have "inherited follows m = Inr names"
        by (simp add: extensions_of_def)
      then have "set names \<subseteq> fst ` set m" by (rule inh)
      with mem Some show ?thesis
        by (force simp: extension_names_def)
    qed
  qed
  moreover have "finite (extension_names g)"
    by (auto simp: extension_names_def split: option.splits)
  ultimately have "card ((extension_names g \<union> set (names @ pending)) - set (visited @ [r]))
        < card ((extension_names g \<union> set (r # pending)) - set visited)"
    using fresh by (intro psubset_card_mono) auto
  then show "((g, follows, names @ pending, visited @ [r]), (g, follows, r # pending, visited))
        \<in> measures
          [\<lambda>(g, follows, pending, visited). card ((extension_names g \<union> set pending) - set visited),
           \<lambda>(g, follows, pending, visited). length pending]"
    by simp
qed

subsection \<open>extendRole\<close>

text \<open>Modelled from the spec: \<open>CommonUtil.extendRole\<close>, to which \<open>AccessControl.extendRole\<close>
  hands its arguments, is not among the sources.  "For every pair (role, extenderRole),
  fails with \<open>CycleError\<close> if \<open>extenderRole\<close> does not exist, or if extending would create a
  cycle (role extends itself transitively).  On success, increases the role's inheritance
  score by the extender's score plus one and records the extender (optionally gated by a
  condition).  Auto-creates \<open>roles\<close> if not already present; never auto-creates
  \<open>extenderRoles\<close>."  The cycle check expands the extender over every extension, whatever
  its condition, and looks for the role among the roles reached.  The pairs are taken in
  order, each on the store the pairs before it left.\<close>

definition every_extension :: "extension \<Rightarrow> error + bool" where
  "every_extension x = Inr True"

definition extend_pair :: "jsval option \<Rightarrow> string \<times> string \<Rightarrow> store \<Rightarrow> error option \<times> store" where
  "extend_pair cond pair g =
     (case pair of (role, extenderRole) \<Rightarrow>
        (case map_of g extenderRole of
           None \<Rightarrow> (Some CycleError, g)
         | Some extender \<Rightarrow>
             (case expandRoles g every_extension [extenderRole] [] of
                Inl e \<Rightarrow> (Some e, g)
              | Inr reached \<Rightarrow>
                  if role \<in> set reached then (Some CycleError, g)
                  else
                    (let item = (case map_of g role of None \<Rightarrow> new_role | Some i \<Rightarrow> i);
                         ext = (case extends item of None \<Rightarrow> [] | Some m \<Rightarrow> m)
                     in (None,
                         AList.update role
                           (item\<lparr>score := score item + (score extender + 1),
                                 extends := Some (AList.update extenderRole
                                              (Conditional (score extender + 1) cond) ext)\<rparr>)
                           g)))))"

definition extendRole :: "string list \<Rightarrow> string list \<Rightarrow> jsval option \<Rightarrow> store \<Rightarrow> error option \<times> store" where
  "extendRole roles extenderRoles cond g =
     forEach (extend_pair cond) (List.product roles extenderRoles) g"

text \<open>The relation "\<open>r\<close> inherits from \<open>name\<close>": \<open>name\<close> is a key of \<open>r\<close>'s \<open>$extend\<close> whose
  entry \<open>follows\<close> accepts.\<close>

definition inherits :: "store \<Rightarrow> (extension \<Rightarrow> error + bool) \<Rightarrow> (string \<times> string) set" where
  "inherits g follows =
     {(r, name). \<exists>item ext x. map_of g r = Some item \<and> extends item = Some ext
                  \<and> (name, x) \<in> set ext \<and> follows x = Inr True}"

text \<open>Stores for concrete inputs: three roles, of which \<open>user\<close> extends \<open>guest\<close>, and the
  same store after \<open>admin\<close> has been extended by \<open>user\<close>.\<close>

definition three_roles :: store where
  "three_roles =
     [(''admin'', new_role),
      (''user'', \<lparr>grants = [], extends = Some [(''guest'', Conditional 1 None)], score = 1\<rparr>),
      (''guest'', new_role)]"

definition admin_extends_user :: store where
  "admin_extends_user =
     [(''admin'', \<lparr>grants = [], extends = Some [(''user'', Conditional 2 None)], score = 2\<rparr>),
      (''user'', \<lparr>grants = [], extends = Some [(''guest'', Conditional 1 None)], score = 1\<rparr>),
      (''guest'', new_role)]"

section \<open>removeRoles\<close>

text \<open>
  The store of the sections above is the role map of the data model.  The method
  \<open>AccessControl.removeRoles\<close> is modelled on the grants object as the program holds it.  The
  object and the \<open>$extend\<close> of a role are plain objects: a read \<open>obj[key]\<close> finds the
  property the object owns or, through the prototype chain, a property of
  \<open>Object.prototype\<close>.  What is found there is a built-in function (under \<open>__proto__\<close> the
  prototype itself): it is truthy and has no \<open>score\<close>.  The list holds the property names
  of \<open>Object.prototype\<close> of the language standard and its annex.
\<close>

definition Object_prototype_keys :: "string list" where
  "Object_prototype_keys =
     [''constructor'', ''__defineGetter__'', ''__defineSetter__'', ''hasOwnProperty'',
      ''__lookupGetter__'', ''__lookupSetter__'', ''isPrototypeOf'', ''propertyIsEnumerable'',
      ''toString'', ''valueOf'', ''__proto__'', ''toLocaleString'']"

datatype 'a property = Own 'a | FromPrototype | NoProperty

definition get_property :: "(string \<times> 'a) list \<Rightarrow> string \<Rightarrow> 'a property" where
  "get_property obj key =
     (case map_of obj key of
        Some v \<Rightarrow> Own v
      | None \<Rightarrow> if key \<in> set Object_prototype_keys then FromPrototype else NoProperty)"

text \<open>
  A score is a number of the language.  The subtraction of two finite numbers is exact when
  the result is an integer of magnitude at most \<open>2\<^sup>5\<^sup>3\<close>, which every double represents;
  any other result is rounded to a double by the machine, with \<open>nearest\<close>, a parameter.
  \<open>NaN\<close> and the infinities follow the arithmetic of doubles.
\<close>

definition safe_integer :: "rat \<Rightarrow> bool" where
  "safe_integer q = (q = of_int \<lfloor>q\<rfloor> \<and> \<bar>q\<bar> \<le> 2 ^ 53)"

fun number_minus :: "(rat \<Rightarrow> number) \<Rightarrow> number \<Rightarrow> number \<Rightarrow> number" where
  "number_minus nearest (Finite a) (Finite b) =
     (if safe_integer (a - b) then Finite (a - b) else nearest (a - b))"
| "number_minus nearest NaN y = NaN"
| "number_minus nearest x NaN = NaN"
| "number_minus nearest PosInfinity PosInfinity = NaN"
| "number_minus nearest NegInfinity NegInfinity = NaN"
| "number_minus nearest PosInfinity y = PosInfinity"
| "number_minus nearest NegInfinity y = NegInfinity"
| "number_minus nearest (Finite a) PosInfinity = NegInfinity"
| "number_minus nearest (Finite a) NegInfinity = PosInfinity"

text \<open>
  The item of a role, as \<open>removeRoles\<close> reads and writes it: \<open>$extend\<close> is absent or a plain
  object from role names to entries (any values), \<open>score\<close> is a number; the other
  properties are not touched.  The keys of an object are distinct and come in their
  enumeration order, and no two roles share one item or one \<open>$extend\<close>.
\<close>

record role_object =
  extend_object :: "(string \<times> jsval) list option"
  score_number :: number
  other_properties :: "(string \<times> jsval) list"

type_synonym grants_object = "(string \<times> role_object) list"

text \<open>The two tests \<open>roleItem.$extend\<close> and \<open>roleItem.$extend[role]\<close> together.\<close>

definition extend_truthy :: "role_object \<Rightarrow> string \<Rightarrow> bool" where
  "extend_truthy roleItem role =
     (case extend_object roleItem of
        None \<Rightarrow> False
      | Some ext \<Rightarrow>
          (case get_property ext role of
             Own x \<Rightarrow> truthy x
           | FromPrototype \<Rightarrow> True
           | NoProperty \<Rightarrow> False))"

text \<open>
  The inner callback, for the item under \<open>key\<close> and one role to remove.  When the entry
  \<open>roleItem.$extend[role]\<close> is truthy, \<open>this._grants[role].score\<close> is read: the score of the
  role's item when the store owns the role; \<open>undefined\<close> when the name is found on the
  prototype, and the score becomes \<open>NaN\<close>; a \<open>TypeError\<close> when the name is found nowhere,
  before anything is written.  Then \<open>delete\<close> removes the entry that \<open>$extend\<close> owns.
\<close>

definition strip_role ::
  "(rat \<Rightarrow> number) \<Rightarrow> string \<Rightarrow> string \<Rightarrow> grants_object \<Rightarrow> error option \<times> grants_object" where
  "strip_role nearest key role g =
     (case map_of g key of
        None \<Rightarrow> (Some TypeError, g)
      | Some roleItem \<Rightarrow>
          if extend_truthy roleItem role then
            (case get_property g role of
               NoProperty \<Rightarrow> (Some TypeError, g)
             | FromPrototype \<Rightarrow>
                 (None,
                  AList.update key
                    (roleItem\<lparr>score_number := NaN,
                              extend_object := map_option (AList.delete role) (extend_object roleItem)\<rparr>)
                    g)
             | Own removed \<Rightarrow>
                 (None,
                  AList.update key
                    (roleItem\<lparr>score_number :=
                                number_minus nearest (score_number roleItem) (score_number removed),
                              extend_object := map_option (AList.delete role) (extend_object roleItem)\<rparr>)
                    g))
          else (None, g))"

text \<open>The outer callback of \<open>_each\<close>: \<open>if (roleItem.$extend) rolesToRemove.forEach(...)\<close>.\<close>

definition strip_roles ::
  "(rat \<Rightarrow> number) \<Rightarrow> string list \<Rightarrow> string \<Rightarrow> grants_object \<Rightarrow> error option \<times> grants_object" where
  "strip_roles nearest rolesToRemove key g =
     (case map_of g key of
        None \<Rightarrow> (Some TypeError, g)
      | Some roleItem \<Rightarrow>
          (case extend_object roleItem of
             None \<Rightarrow> (None, g)
           | Some ext \<Rightarrow> forEach (strip_role nearest key) rolesToRemove g))"

text \<open>
  The roles are given as an array (of an array, \<open>ArrayUtil.toStringArray\<close> has nothing to
  split).  \<open>Array.prototype.sort\<close> without a comparator orders strings by their code
  units.  \<open>_each\<close> visits the keys that the store owns when the loop starts, in their
  enumeration order, and hands the callback the item the store holds under the key.  At
  the end \<open>delete this._grants[role]\<close> removes the roles that the store owns.
\<close>

definition removeRoles ::
  "(rat \<Rightarrow> number) \<Rightarrow> string list \<Rightarrow> grants_object \<Rightarrow> error option \<times> grants_object" where
  "removeRoles nearest roles g =
     (let rolesToRemove = sort roles
      in case forEach (strip_roles nearest rolesToRemove) (map fst g) g of
           (Some e, g') \<Rightarrow> (Some e, g')
         | (None, g') \<Rightarrow> (None, fold AList.delete rolesToRemove g'))"

text \<open>The item of a role after the role \<open>role\<close>, whose item is \<open>removed\<close>, has been stripped
  from it.\<close>

definition stripped :: "(rat \<Rightarrow> number) \<Rightarrow> role_object \<Rightarrow> role_object \<Rightarrow> string \<Rightarrow> role_object" where
  "stripped nearest roleItem removed role =
     roleItem\<lparr>score_number := number_minus nearest (score_number roleItem) (score_number removed),
              extend_object := map_option (AList.delete role) (extend_object roleItem)\<rparr>"

text \<open>
  For concrete inputs: a rounding for scores whose differences are small integers, where it
  is never reached; and the grants object in which \<open>admin\<close>, whose score was 0, extends
  \<open>user\<close>, whose score is 1, with the score raised by the score of \<open>user\<close> plus one.
\<close>

definition rounding_not_reached :: "rat \<Rightarrow> number" where
  "rounding_not_reached q = NaN"

definition admin_raised :: grants_object where
  "admin_raised =
     [(''admin'', \<lparr>extend_object = Some [(''user'', JObj [])], score_number = Finite (0 + (1 + 1)),
                   other_properties = []\<rparr>),
      (''user'', \<lparr>extend_object = None, score_number = Finite 1, other_properties = []\<rparr>)]"


section \<open>Queries\<close>

text \<open>
  A query names the roles, and optionally a resource, an action, a possession and a context
  (\<open>undefined\<close> when there is none).
\<close>

datatype possession = Own | Any

record IQueryInfo =
  q_role :: "string list"
  q_resource :: "string option"
  q_action :: "string option"
  q_possession :: "possession option"
  q_context :: jsval

text \<open>
  The evaluation of a condition against a context (\<open>ConditionUtil.evaluate\<close>) and the glob
  matcher (\<open>matchGlob(pattern, candidate)\<close>) are not among the sources: both are
  parameters.  For the resolver the evaluation of a condition is read-only; it may raise.
\<close>

type_synonym condition_evaluator = "jsval \<Rightarrow> jsval \<Rightarrow> error + bool"

type_synonym glob_matcher = "string \<Rightarrow> string \<Rightarrow> bool"

text \<open>Modelled from the spec: the query traversal of \<open>CommonUtil\<close>
  (\<open>getUnionAttrsOfRoles\<close>) is not among the sources.  "Expand the queried role set via
  the role expansion, then for each reachable role filter its grants to those matching the
  query's resource (when given) and action (matching exact action, the generic form
  without possession, or treating an explicit possession filter against the own/any
  suffix)"; \<open>permission\<close> "only unions attribute sets of grants whose condition accepts the
  given context (or carries no condition)", "extended permissions are only inherited while
  the condition holds against the querying context", and "attribute sets from all accepted
  grants across all reachable roles are unioned (duplicate patterns collapse)".\<close>

fun extension_holds :: "condition_evaluator \<Rightarrow> jsval \<Rightarrow> extension \<Rightarrow> error + bool" where
  "extension_holds ev ctx (Score n) = Inr True"
| "extension_holds ev ctx (Conditional n None) = Inr True"
| "extension_holds ev ctx (Conditional n (Some c)) = ev c ctx"

definition generic_action :: "string \<Rightarrow> string" where
  "generic_action a = takeWhile (\<lambda>c. c \<noteq> CHR '':'') a"

fun possession_name :: "possession \<Rightarrow> string" where
  "possession_name Own = ''own''"
| "possession_name Any = ''any''"

definition grant_matches :: "glob_matcher \<Rightarrow> IQueryInfo \<Rightarrow> grant \<Rightarrow> bool" where
  "grant_matches matchGlob q gr =
     ((case q_resource q of None \<Rightarrow> True | Some r \<Rightarrow> matchGlob (resource gr) r)
      \<and> (case q_action q of
           None \<Rightarrow> True
         | Some a \<Rightarrow>
             matchGlob (action gr) a
             \<or> matchGlob (action gr) (generic_action a)
             \<or> (case q_possession q of
                   None \<Rightarrow> False
                 | Some p \<Rightarrow> matchGlob (action gr) (generic_action a @ '':'' @ possession_name p))))"

definition grant_accepted :: "condition_evaluator \<Rightarrow> jsval \<Rightarrow> grant \<Rightarrow> error + bool" where
  "grant_accepted ev ctx gr = (case condition gr of None \<Rightarrow> Inr True | Some c \<Rightarrow> ev c ctx)"

definition union_attributes :: "string list \<Rightarrow> string list \<Rightarrow> string list" where
  "union_attributes xs ys = remdups (xs @ ys)"

fun collect_grants ::
  "(grant \<Rightarrow> bool) \<Rightarrow> (grant \<Rightarrow> error + bool) \<Rightarrow> grant list \<Rightarrow> string list \<Rightarrow> error + string list" where
  "collect_grants matches accepts [] attrs = Inr attrs"
| "collect_grants matches accepts (gr # rest) attrs =
     (if matches gr then
        (case accepts gr of
           Inl e \<Rightarrow> Inl e
         | Inr b \<Rightarrow>
             collect_grants matches accepts rest
               (if b then union_attributes attrs (attributes gr) else attrs))
      else collect_grants matches accepts rest attrs)"

fun collect_roles ::
  "(grant \<Rightarrow> bool) \<Rightarrow> (grant \<Rightarrow> error + bool) \<Rightarrow> store \<Rightarrow> string list \<Rightarrow> string list
     \<Rightarrow> error + string list" where
  "collect_roles matches accepts g [] attrs = Inr attrs"
| "collect_roles matches accepts g (r # rs) attrs =
     (case map_of g r of
        None \<Rightarrow> collect_roles matches accepts g rs attrs
      | Some item \<Rightarrow>
          (case collect_grants matches accepts (grants item) attrs of
             Inl e \<Rightarrow> Inl e
           | Inr attrs' \<Rightarrow> collect_roles matches accepts g rs attrs'))"

text \<open>The queried roles are a "role set", and "order of roles in R must not affect the
  result": the traversal starts from the roles without duplicates, in the order of their
  code units.\<close>

definition getUnionAttrsOfRoles ::
  "condition_evaluator \<Rightarrow> glob_matcher \<Rightarrow> store \<Rightarrow> IQueryInfo \<Rightarrow> error + string list" where
  "getUnionAttrsOfRoles ev matchGlob g q =
     (case expandRoles g (extension_holds ev (q_context q)) (sort (remdups (q_role q))) [] of
        Inl e \<Rightarrow> Inl e
      | Inr roles \<Rightarrow>
          collect_roles (grant_matches matchGlob q) (grant_accepted ev (q_context q)) g roles [])"

subsection \<open>permission\<close>

text \<open>Modelled from the spec: the class \<open>Permission\<close> is not among the sources.  It is
  "the immutable outcome object exposing \<open>granted\<close>, \<open>attributes\<close>", constructed "from a
  resolved attribute union", with "\<open>granted = attributes.length > 0\<close>".\<close>

record Permission =
  p_query :: IQueryInfo
  p_attributes :: "string list"

definition granted :: "Permission \<Rightarrow> bool" where
  "granted p = (length (p_attributes p) > 0)"

text \<open>\<open>AccessControl.permission\<close>:
  \<open>new Permission(queryInfo, await CommonUtil.getUnionAttrsOfRoles(this._grants, queryInfo))\<close>.\<close>

definition permission ::
  "condition_evaluator \<Rightarrow> glob_matcher \<Rightarrow> store \<Rightarrow> IQueryInfo \<Rightarrow> error + Permission" where
  "permission ev matchGlob g queryInfo =
     (case getUnionAttrsOfRoles ev matchGlob g queryInfo of
        Inl e \<Rightarrow> Inl e
      | Inr attrs \<Rightarrow> Inr \<lparr>p_query = queryInfo, p_attributes = attrs\<rparr>)"

text \<open>The grants of a role that match the query, those among them whose condition accepts
  the context, and the roles reachable from the queried roles by the extensions that hold
  in the context.\<close>

definition matching_grants :: "glob_matcher \<Rightarrow> store \<Rightarrow> IQueryInfo \<Rightarrow> string \<Rightarrow> grant set" where
  "matching_grants matchGlob g q r =
     (case map_of g r of
        None \<Rightarrow> {}
      | Some item \<Rightarrow> {gr \<in> set (grants item). grant_matches matchGlob q gr})"



text \<open>For concrete inputs: a matcher for literal patterns and the lone wildcard, an
  evaluator for conditions that name the status the context must have, a store in which
  \<open>admin\<close> extends \<open>user\<close>, and queries on it.\<close>

definition literal_glob :: glob_matcher where
  "literal_glob pattern candidate = (pattern = ''*'' \<or> pattern = candidate)"

definition status_evaluator :: condition_evaluator where
  "status_evaluator cond ctx =
     (case cond of
        JStr s \<Rightarrow> Inr (ctx = JObj [(''status'', JStr s)])
      | _ \<Rightarrow> Inl UnknownPredicate)"

definition profile_store :: store where
  "profile_store =
     [(''user'',
        \<lparr>grants = [\<lparr>resource = ''profile'', action = ''read:own'',
                     attributes = [''*'', ''!password''], condition = None\<rparr>],
         extends = None, score = 0\<rparr>),
      (''admin'',
        \<lparr>grants = [\<lparr>resource = ''profile'', action = ''read:own'',
                     attributes = [''*'', ''role''], condition = Some (JStr ''active'')\<rparr>],
         extends = Some [(''user'', Conditional 1 None)], score = 1\<rparr>)]"

definition profile_query :: IQueryInfo where
  "profile_query =
     \<lparr>q_role = [''admin'', ''user''], q_resource = Some ''profile'', q_action = Some ''read'',
      q_possession = Some Own, q_context = JObj [(''status'', JStr ''active'')]\<rparr>"



definition video_query :: IQueryInfo where
  "video_query =
     \<lparr>q_role = [''admin''], q_resource = Some ''video'', q_action = Some ''read'',
      q_possession = Some Own, q_context = JObj [(''status'', JStr ''active'')]\<rparr>"

section \<open>The attribute filter\<close>

text \<open>Modelled from the spec: \<open>CommonUtil.filterAll\<close>, to which \<open>AccessControl.filter\<close> hands
  its arguments, and the notation filter behind it are not among the sources.  A glob
  pattern is "a string, optionally dot-delimited for nested object paths, optionally
  containing a wildcard segment, optionally prefixed with a negation marker"; a pattern
  covers the key it names and everything nested below it.  The filter "sorts
  \<open>attributePatterns\<close> by specificity (wildcard-only patterns first, negated patterns next,
  exact/dotted patterns last) so later, more specific patterns win, then walks nested
  object keys, including each key only if the cumulative pattern application admits it.
  Passing no patterns (or an empty string) yields an empty result object.  Arrays of data
  objects are filtered element-wise."  An object-valued key is kept when it is admitted
  itself or when one of the keys below it is.\<close>

fun negated :: "string \<Rightarrow> bool" where
  "negated (c # cs) = (c = CHR ''!'')"
| "negated [] = False"

fun notation_of :: "string \<Rightarrow> string" where
  "notation_of (c # cs) = (if c = CHR ''!'' then cs else c # cs)"
| "notation_of [] = []"

fun segments :: "string \<Rightarrow> string list" where
  "segments [] = [[]]"
| "segments (c # cs) =
     (if c = CHR ''.'' then [] # segments cs
      else (case segments cs of
              [] \<Rightarrow> [[c]]
            | s # ss \<Rightarrow> (c # s) # ss))"

fun glob_covers :: "string list \<Rightarrow> string list \<Rightarrow> bool" where
  "glob_covers [] path = True"
| "glob_covers (s # ss) [] = False"
| "glob_covers (s # ss) (k # ks) = ((s = ''*'' \<or> s = k) \<and> glob_covers ss ks)"

definition specificity :: "string \<Rightarrow> nat" where
  "specificity p =
     (if negated p then 1
      else if list_all (\<lambda>s. s = ''*'') (segments p) then 0
      else 2)"

definition admitted :: "string list \<Rightarrow> string list \<Rightarrow> bool" where
  "admitted patterns path =
     foldl (\<lambda>admit p. if glob_covers (segments (notation_of p)) path then \<not> negated p else admit)
       False patterns"

function filter_fields :: "string list \<Rightarrow> string list \<Rightarrow> (string \<times> jsval) list \<Rightarrow> (string \<times> jsval) list" where
  "filter_fields patterns prefix [] = []"
| "filter_fields patterns prefix ((k, v) # rest) =
     (case v of
        JObj fs \<Rightarrow>
          (let kept = filter_fields patterns (prefix @ [k]) fs
           in if admitted patterns (prefix @ [k]) \<or> kept \<noteq> [] then [(k, JObj kept)] else [])
      | _ \<Rightarrow> if admitted patterns (prefix @ [k]) then [(k, v)] else [])
     @ filter_fields patterns prefix rest"
  by pat_completeness auto
termination
  by (relation "measure (\<lambda>(patterns, prefix, fs). size_list (size_prod (\<lambda>k. 0) size) fs)") auto

fun attribute_patterns :: "jsval \<Rightarrow> string list" where
  "attribute_patterns (JStr s) = [s]"
| "attribute_patterns (JArr xs) = concat (map (\<lambda>x. case x of JStr s \<Rightarrow> [s] | _ \<Rightarrow> []) xs)"
| "attribute_patterns v = []"

fun fields_of :: "jsval \<Rightarrow> (string \<times> jsval) list" where
  "fields_of (JObj fs) = fs"
| "fields_of v = []"

definition filter_object :: "jsval \<Rightarrow> string list \<Rightarrow> jsval" where
  "filter_object object attrs =
     (let patterns = sort_key specificity (filter (\<lambda>p. p \<noteq> []) attrs)
      in JObj (filter_fields patterns [] (fields_of object)))"

definition filterAll :: "jsval \<Rightarrow> jsval \<Rightarrow> jsval" where
  "filterAll data attrs =
     (case data of
        JArr xs \<Rightarrow> JArr (map (\<lambda>x. filter_object x (attribute_patterns attrs)) xs)
      | _ \<Rightarrow> filter_object data (attribute_patterns attrs))"

text \<open>\<open>AccessControl.filter\<close>: \<open>return CommonUtil.filterAll(data, attributes)\<close>.\<close>

definition AccessControl_filter :: "jsval \<Rightarrow> jsval \<Rightarrow> jsval" where
  "AccessControl_filter data attrs = filterAll data attrs"

text \<open>The data object \<open>{a:1, b:{c:2, d:3}}\<close> and what is left of it as \<open>{a:1, b:{c:2}}\<close>.\<close>

definition nested_data :: jsval where
  "nested_data =
     JObj [(''a'', JNum (Finite 1)),
           (''b'', JObj [(''c'', JNum (Finite 2)), (''d'', JNum (Finite 3))])]"

definition filtered_nested_data :: jsval where
  "filtered_nested_data =
     JObj [(''a'', JNum (Finite 1)), (''b'', JObj [(''c'', JNum (Finite 2))])]"

section \<open>The filter on the heap\<close>

text \<open>Modelled from the spec: what \<open>filter\<close> does to the caller's object is decided by
  \<open>CommonUtil.filterAll\<close>, which is not among the sources.  The filter "deep-clones \<open>data\<close>
  conceptually (never mutates caller's object in place for the returned value)".  The
  objects and arrays of the program are the cells of a heap; a value is a primitive or a
  reference to a cell.  The filter reads the data out of the heap, following the references
  to a depth that the fuel bounds (data that contains itself is never read to its end, and
  the filter does not return), filters the value read, and builds the result in new cells.\<close>

datatype heap_value = HUndefined | HNull | HBool bool | HNum number | HStr string | HRef nat

datatype heap_object = HObj "(string \<times> heap_value) list" | HArr "heap_value list"

type_synonym heap = "heap_object list"

fun load :: "heap \<Rightarrow> nat \<Rightarrow> heap_value \<Rightarrow> jsval option" where
  "load h n HUndefined = Some JUndefined"
| "load h n HNull = Some JNull"
| "load h n (HBool b) = Some (JBool b)"
| "load h n (HNum x) = Some (JNum x)"
| "load h n (HStr s) = Some (JStr s)"
| "load h 0 (HRef a) = None"
| "load h (Suc n) (HRef a) =
     (if a < length h then
        (case h ! a of
           HArr xs \<Rightarrow> map_option JArr (those (map (load h n) xs))
         | HObj fs \<Rightarrow> map_option JObj (those (map (\<lambda>(k, v). map_option (Pair k) (load h n v)) fs)))
      else None)"

function store_value :: "jsval \<Rightarrow> heap \<Rightarrow> heap_value \<times> heap"
  and store_list :: "jsval list \<Rightarrow> heap \<Rightarrow> heap_value list \<times> heap"
  and store_fields :: "(string \<times> jsval) list \<Rightarrow> heap \<Rightarrow> (string \<times> heap_value) list \<times> heap" where
  "store_value JUndefined h = (HUndefined, h)"
| "store_value JNull h = (HNull, h)"
| "store_value (JBool b) h = (HBool b, h)"
| "store_value (JNum x) h = (HNum x, h)"
| "store_value (JStr s) h = (HStr s, h)"
| "store_value (JArr xs) h = (case store_list xs h of (vs, h') \<Rightarrow> (HRef (length h'), h' @ [HArr vs]))"
| "store_value (JObj fs) h = (case store_fields fs h of (kvs, h') \<Rightarrow> (HRef (length h'), h' @ [HObj kvs]))"
| "store_list [] h = ([], h)"
| "store_list (x # xs) h =
     (case store_value x h of (v, h') \<Rightarrow>
        (case store_list xs h' of (vs, h'') \<Rightarrow> (v # vs, h'')))"
| "store_fields [] h = ([], h)"
| "store_fields ((k, x) # fs) h =
     (case store_value x h of (v, h') \<Rightarrow>
        (case store_fields fs h' of (kvs, h'') \<Rightarrow> ((k, v) # kvs, h'')))"
  by pat_completeness auto
termination
  by (relation "measure (\<lambda>x. case x of
          Inl (v, h) \<Rightarrow> size v
        | Inr (Inl (xs, h)) \<Rightarrow> size_list size xs
        | Inr (Inr (fs, h)) \<Rightarrow> size_list (size_prod (\<lambda>k. 0) size) fs)") auto

definition filter_in_heap :: "nat \<Rightarrow> heap_value \<Rightarrow> jsval \<Rightarrow> heap \<Rightarrow> (heap_value \<times> heap) option" where
  "filter_in_heap fuel data attrs h =
     (case load h fuel data of
        None \<Rightarrow> None
      | Some v \<Rightarrow> Some (store_value (AccessControl_filter v attrs) h))"

text \<open>The data object \<open>{a:1, b:{c:2, d:3}}\<close> in two cells, and the heap after the filter has
  built \<open>{a:1, b:{c:2}}\<close> in two more.\<close>

definition nested_heap :: heap where
  "nested_heap =
     [HObj [(''c'', HNum (Finite 2)), (''d'', HNum (Finite 3))],
      HObj [(''a'', HNum (Finite 1)), (''b'', HRef 0)]]"

definition nested_heap_filtered :: heap where
  "nested_heap_filtered =
     nested_heap @
     [HObj [(''c'', HNum (Finite 2))],
      HObj [(''a'', HNum (Finite 1)), (''b'', HRef 2)]]"

section \<open>Properties of the OR condition\<close>

lemma or_loop_True: "or_loop ev context True conditions s = (Inr True, s)"
  by (induction conditions) simp_all

text \<open>
  Claim C4.  An OR condition over an empty operand list returns false (with a context
  present, and also without one), and an evaluation with no condition expression at all
  (\<open>args\<close> is \<open>undefined\<close>) returns true.  In both cases no operand is evaluated: the state
  of the world is returned as it was.
\<close>

theorem or_empty_operands_false_no_expression_true:
  "OrCondition_evaluate ev (JArr []) context s = (Inr False, s)
   \<and> OrCondition_evaluate ev JUndefined context s = (Inr True, s)"
  by (simp add: OrCondition_evaluate_def)

theorem or_empty_operands_witness:
  "truthy (JObj [(''status'', JStr ''active'')])
   \<and> OrCondition_evaluate raising_evaluator (JArr []) (JObj [(''status'', JStr ''active'')]) 0 = (Inr False, 0)
   \<and> OrCondition_evaluate raising_evaluator JUndefined (JObj [(''status'', JStr ''active'')]) 0 = (Inr True, 0)"
  using or_empty_operands_false_no_expression_true
          [of raising_evaluator "JObj [(''status'', JStr ''active'')]" 0]
  by simp

text \<open>
  Claim C5, as stated, fails: a scalar \<open>args\<close> that is falsy (the number \<open>0\<close>) evaluates to
  true, and a truthy scalar (the string \<open>'admin'\<close>) evaluated without a context evaluates to
  false; neither raises.
\<close>

theorem or_scalar_args_counterexample:
  "OrCondition_evaluate raising_evaluator (JNum (Finite 0)) (JObj []) 0 = (Inr True, 0)
   \<and> OrCondition_evaluate raising_evaluator (JStr ''admin'') JUndefined 0 = (Inr False, 0)"
  by (simp add: OrCondition_evaluate_def)

text \<open>
  Claim C5, amended.  For every \<open>args\<close> that is neither an array nor an object, an OR
  condition fails with \<open>InvalidConditionArgs\<close> exactly when \<open>args\<close> is truthy and a (truthy)
  context is present; a falsy scalar evaluates to true and a truthy scalar without a context
  to false, and no operand is evaluated.
\<close>

theorem or_truthy_scalar_args_with_context_fail:
  assumes "CommonUtil_type args \<noteq> ''array''" and "CommonUtil_type args \<noteq> ''object''"
  shows "OrCondition_evaluate ev args context s =
           (if \<not> truthy args then (Inr True, s)
            else if \<not> truthy context then (Inr False, s)
            else (Inl InvalidConditionArgs, s))"
  using assms by (simp add: OrCondition_evaluate_def)

theorem or_truthy_scalar_args_witness:
  "CommonUtil_type (JNum (Finite 5)) \<noteq> ''array'' \<and> CommonUtil_type (JNum (Finite 5)) \<noteq> ''object''
   \<and> truthy (JNum (Finite 5)) \<and> truthy (JObj [])
   \<and> OrCondition_evaluate (counting_evaluator True) (JNum (Finite 5)) (JObj []) 0
       = (Inl InvalidConditionArgs, 0)"
  using or_truthy_scalar_args_with_context_fail
          [of "JNum (Finite 5)" "counting_evaluator True" "JObj []" 0]
  by simp

text \<open>
  Claim C10.  The guards of \<open>OrCondition.evaluate\<close> come in a fixed order, before the type
  of \<open>args\<close> is looked at: a falsy \<open>args\<close> gives true whatever the context; otherwise a
  falsy context gives false whatever \<open>args\<close> is, with no error and with the state untouched
  (no operand is evaluated, whatever the evaluator); only with both truthy is the type of
  \<open>args\<close> checked and the operand list run through the loop.
\<close>

theorem or_guard_precedence:
  "(\<not> truthy args \<longrightarrow> OrCondition_evaluate ev args context s = (Inr True, s))
   \<and> (truthy args \<and> \<not> truthy context \<longrightarrow> OrCondition_evaluate ev args context s = (Inr False, s))
   \<and> (truthy args \<and> truthy context \<longrightarrow>
        OrCondition_evaluate ev args context s =
          (if CommonUtil_type args \<noteq> ''array'' \<and> CommonUtil_type args \<noteq> ''object''
           then (Inl InvalidConditionArgs, s)
           else or_loop ev context False (ArrayUtil_toArray args) s))"
  by (simp add: OrCondition_evaluate_def)

theorem or_guard_precedence_witness:
  "\<not> truthy (JStr '''') \<and> truthy (JNum (Finite 7)) \<and> \<not> truthy JUndefined \<and> truthy (JObj [])
   \<and> OrCondition_evaluate raising_evaluator (JStr '''') (JObj []) 0 = (Inr True, 0)
   \<and> OrCondition_evaluate raising_evaluator (JNum (Finite 7)) JUndefined 0 = (Inr False, 0)
   \<and> OrCondition_evaluate raising_evaluator (JNum (Finite 7)) (JObj []) 0 = (Inl InvalidConditionArgs, 0)
   \<and> OrCondition_evaluate (counting_evaluator True) (JArr [JNull, JNull]) (JObj []) 0 = (Inr True, 1)"
  using or_guard_precedence [of "JStr ''''" raising_evaluator "JObj []" 0]
        or_guard_precedence [of "JNum (Finite 7)" raising_evaluator JUndefined 0]
        or_guard_precedence [of "JNum (Finite 7)" raising_evaluator "JObj []" 0]
        or_guard_precedence [of "JArr [JNull, JNull]" "counting_evaluator True" "JObj []" 0]
  by (simp add: counting_evaluator_def)


section \<open>Properties of setGrants\<close>

lemma commitToGrants_error: "commitToGrants g item = Inl e \<Longrightarrow> e = InvalidGrantsFormat"
  by (auto simp: commitToGrants_def split: jsval.splits option.splits)

lemma commitToGrants_missing_field:
  "missing_field item \<Longrightarrow> commitToGrants g item = Inl InvalidGrantsFormat"
  by (auto simp: commitToGrants_def missing_field_def split: jsval.splits option.splits)

lemma commit_all_missing_field:
  "\<exists>item \<in> set items. missing_field item \<Longrightarrow>
   fst (forEach (\<lambda>item g. case commitToGrants g item of
                             Inl e \<Rightarrow> (Some e, g)
                           | Inr g' \<Rightarrow> (None, g')) items g) = Some InvalidGrantsFormat"
proof (induction items arbitrary: g)
  case Nil
  then show ?case by simp
next
  case (Cons item items)
  show ?case
  proof (cases "commitToGrants g item")
    case (Inl e)
    then show ?thesis by (simp add: commitToGrants_error)
  next
    case (Inr g')
    with Cons.prems have "\<exists>item \<in> set items. missing_field item"
      by (auto simp: commitToGrants_missing_field)
    then show ?thesis using Inr by (simp add: Cons.IH)
  qed
qed

text \<open>
  Claim C3, as stated, fails: \<open>setGrants\<close> with a string, a number or \<open>null\<close> raises
  nothing (even with a normaliser that rejects everything); it leaves the empty store.
\<close>

theorem setGrants_scalar_counterexample:
  "setGrants rejecting_normalizer (JStr ''admin'') = (None, [])
   \<and> setGrants rejecting_normalizer (JNum (Finite 42)) = (None, [])
   \<and> setGrants rejecting_normalizer JNull = (None, [])"
  by (simp add: setGrants_def)

text \<open>
  Claim C3, amended.  For every input that is neither an object nor an array, \<open>setGrants\<close>
  does not fail: it resets the store to the empty one and returns.  For a flat list with a
  record that lacks its \<open>role\<close>, \<open>resource\<close> or \<open>action\<close>, it fails with
  \<open>InvalidGrantsFormat\<close>.
\<close>

theorem setGrants_scalar_resets_incomplete_record_fails:
  "(CommonUtil_type v \<noteq> ''object'' \<and> CommonUtil_type v \<noteq> ''array''
      \<longrightarrow> setGrants normalizeGrantsObject v = (None, []))
   \<and> (item \<in> set items \<and> missing_field item
      \<longrightarrow> fst (setGrants normalizeGrantsObject (JArr items)) = Some InvalidGrantsFormat)"
proof (intro conjI impI)
  assume "CommonUtil_type v \<noteq> ''object'' \<and> CommonUtil_type v \<noteq> ''array''"
  then show "setGrants normalizeGrantsObject v = (None, [])"
    by (simp add: setGrants_def)
next
  assume "item \<in> set items \<and> missing_field item"
  then have "\<exists>item \<in> set items. missing_field item" by blast
  then show "fst (setGrants normalizeGrantsObject (JArr items)) = Some InvalidGrantsFormat"
    by (simp add: setGrants_def commit_all_missing_field)
qed

theorem setGrants_scalar_resets_witness:
  "CommonUtil_type (JBool True) \<noteq> ''object'' \<and> CommonUtil_type (JBool True) \<noteq> ''array''
   \<and> setGrants rejecting_normalizer (JBool True) = (None, [])
   \<and> record_without_action \<in> set [complete_record, record_without_action]
   \<and> missing_field record_without_action
   \<and> fst (setGrants rejecting_normalizer (JArr [complete_record, record_without_action]))
       = Some InvalidGrantsFormat"
  using setGrants_scalar_resets_incomplete_record_fails
          [of "JBool True" rejecting_normalizer record_without_action
              "[complete_record, record_without_action]"]
  by (simp add: missing_field_def record_without_action_def)


section \<open>Role expansion reaches the roles inherited\<close>

lemma inherited_names:
  "inherited follows ext = Inr names \<Longrightarrow>
   set names = {n. \<exists>x. (n, x) \<in> set ext \<and> follows x = Inr True}"
  by (induction ext arbitrary: names) (fastforce split: sum.splits if_splits)+

lemma inherited_raises:
  "inherited follows ext = Inl e \<Longrightarrow> \<exists>n x. (n, x) \<in> set ext \<and> follows x = Inl e"
  by (induction ext) (fastforce split: sum.splits if_splits)+

lemma inherited_returns:
  "\<forall>n x. (n, x) \<in> set ext \<longrightarrow> (\<exists>b. follows x = Inr b) \<Longrightarrow> \<exists>names. inherited follows ext = Inr names"
  by (induction ext) (fastforce split: sum.splits if_splits)+

lemma extensions_of_names:
  "extensions_of g follows r = Inr names \<Longrightarrow> set names = inherits g follows `` {r}"
  by (auto simp: extensions_of_def inherits_def split: option.splits dest!: inherited_names)

lemma expandRoles_sound:
  "expandRoles g follows pending visited = Inr res \<Longrightarrow>
     set visited \<subseteq> set res \<and> set pending \<subseteq> set res
   \<and> (\<forall>r \<in> set res - set visited.
         \<exists>names. extensions_of g follows r = Inr names \<and> set names \<subseteq> set res)
   \<and> set res \<subseteq> set visited \<union> (inherits g follows)\<^sup>* `` set pending"
proof (induction g follows pending visited arbitrary: res rule: expandRoles.induct)
  case (1 g follows visited)
  then show ?case by simp
next
  case (2 g follows r pending visited)
  show ?case
  proof (cases "r \<in> set visited")
    case True
    with "2.prems" have "expandRoles g follows pending visited = Inr res" by simp
    from "2.IH"(1) [OF True this] True show ?thesis by auto
  next
    case False
    with "2.prems" obtain names where
      names: "extensions_of g follows r = Inr names"
      and run: "expandRoles g follows (names @ pending) (visited @ [r]) = Inr res"
      by (auto split: sum.splits)
    note ih = "2.IH"(2) [OF False names run]
    have step: "set names = inherits g follows `` {r}"
      using names by (rule extensions_of_names)
    define X where "X = (inherits g follows)\<^sup>* `` set (names @ pending)"
    define Y where "Y = (inherits g follows)\<^sup>* `` set (r # pending)"
    have "X \<subseteq> Y"
    proof
      fix y assume "y \<in> X"
      then obtain x where x: "x \<in> set names \<union> set pending" and xy: "(x, y) \<in> (inherits g follows)\<^sup>*"
        by (auto simp: X_def)
      show "y \<in> Y"
      proof (cases "x \<in> set names")
        case True
        with step have "(r, x) \<in> inherits g follows" by auto
        then have "(r, y) \<in> (inherits g follows)\<^sup>*"
          using xy by (rule converse_rtrancl_into_rtrancl)
        then show ?thesis by (auto simp: Y_def)
      next
        case False
        with x xy show ?thesis by (auto simp: Y_def)
      qed
    qed
    moreover have "r \<in> Y" by (auto simp: Y_def)
    moreover have "set res \<subseteq> set (visited @ [r]) \<union> X"
      using ih by (simp add: X_def)
    ultimately have "set res \<subseteq> set visited \<union> Y"
      by auto
    then have "set res \<subseteq> set visited \<union> (inherits g follows)\<^sup>* `` set (r # pending)"
      by (simp add: Y_def)
    moreover have "\<forall>x \<in> set res - set visited.
         \<exists>ns. extensions_of g follows x = Inr ns \<and> set ns \<subseteq> set res"
    proof
      fix x assume "x \<in> set res - set visited"
      show "\<exists>ns. extensions_of g follows x = Inr ns \<and> set ns \<subseteq> set res"
      proof (cases "x = r")
        case True
        with names ih show ?thesis by auto
      next
        case False
        with \<open>x \<in> set res - set visited\<close> ih show ?thesis by auto
      qed
    qed
    moreover have "set visited \<subseteq> set res" "set (r # pending) \<subseteq> set res"
      using ih by auto
    ultimately show ?thesis by blast
  qed
qed

lemma expandRoles_reachable:
  assumes "expandRoles g follows roles [] = Inr res"
  shows "set res = (inherits g follows)\<^sup>* `` set roles"
proof
  from expandRoles_sound [OF assms] show "set res \<subseteq> (inherits g follows)\<^sup>* `` set roles"
    by simp
next
  from expandRoles_sound [OF assms] have
    start: "set roles \<subseteq> set res" and
    closed: "\<forall>r \<in> set res. \<exists>names. extensions_of g follows r = Inr names \<and> set names \<subseteq> set res"
    by simp_all
  have "y \<in> set res" if "(x, y) \<in> (inherits g follows)\<^sup>*" and "x \<in> set res" for x y
    using that
  proof (induction rule: rtrancl_induct)
    case base
    then show ?case .
  next
    case (step y z)
    then have "y \<in> set res" by simp
    with closed obtain names where "extensions_of g follows y = Inr names" "set names \<subseteq> set res"
      by blast
    with step.hyps(2) show ?case
      by (auto dest!: extensions_of_names)
  qed
  with start show "(inherits g follows)\<^sup>* `` set roles \<subseteq> set res"
    by auto
qed

lemma expandRoles_raises:
  "expandRoles g follows pending visited = Inl e \<Longrightarrow>
     \<exists>r \<in> (inherits g follows)\<^sup>* `` set pending. extensions_of g follows r = Inl e"
proof (induction g follows pending visited rule: expandRoles.induct)
  case (1 g follows visited)
  then show ?case by simp
next
  case (2 g follows r pending visited)
  show ?case
  proof (cases "r \<in> set visited")
    case True
    with "2.prems" have "expandRoles g follows pending visited = Inl e" by simp
    from "2.IH"(1) [OF True this] show ?thesis by auto
  next
    case False
    show ?thesis
    proof (cases "extensions_of g follows r")
      case (Inl e')
      with False "2.prems" have "e' = e" by simp
      with Inl show ?thesis by auto
    next
      case (Inr names)
      with False "2.prems" have "expandRoles g follows (names @ pending) (visited @ [r]) = Inl e"
        by simp
      from "2.IH"(2) [OF False Inr this] obtain x y where
        x: "x \<in> set names \<union> set pending" and xy: "(x, y) \<in> (inherits g follows)\<^sup>*"
        and y: "extensions_of g follows y = Inl e"
        by auto
      show ?thesis
      proof (cases "x \<in> set names")
        case True
        with Inr have "(r, x) \<in> inherits g follows" by (auto dest!: extensions_of_names)
        then have "(r, y) \<in> (inherits g follows)\<^sup>*"
          using xy by (rule converse_rtrancl_into_rtrancl)
        with y show ?thesis by auto
      next
        case False
        with x xy y show ?thesis by auto
      qed
    qed
  qed
qed

section \<open>Properties of extendRole\<close>

lemma inherited_every_extension: "inherited every_extension ext = Inr (map fst ext)"
  by (induction ext) (auto simp: every_extension_def)

lemma extensions_of_every_extension: "extensions_of g every_extension r \<noteq> Inl e"
  by (simp add: extensions_of_def inherited_every_extension split: option.splits)

lemma expandRoles_every_extension: "expandRoles g every_extension pending visited \<noteq> Inl e"
proof
  assume "expandRoles g every_extension pending visited = Inl e"
  then obtain r where "extensions_of g every_extension r = Inl e"
    by (blast dest: expandRoles_raises)
  then show False by (simp add: extensions_of_every_extension)
qed

lemma extendRole_single: "extendRole [A] [B] c g = extend_pair c (A, B) g"
  by (simp add: extendRole_def split: prod.splits option.splits)

lemma extend_pair_failure:
  "extend_pair c (A, B) g = (Some e, g') \<Longrightarrow> e = CycleError \<and> g' = g"
  by (auto simp: extend_pair_def Let_def expandRoles_every_extension
           simp del: expandRoles.simps split: option.splits sum.splits if_splits)

lemma extend_pair_self: "extend_pair c (A, A) g = (Some CycleError, g)"
proof (cases "map_of g A")
  case None
  then show ?thesis by (simp add: extend_pair_def)
next
  case (Some a)
  obtain reached where r: "expandRoles g every_extension [A] [] = Inr reached"
    using expandRoles_every_extension [of g "[A]" "[]"]
    by (cases "expandRoles g every_extension [A] []") auto
  from expandRoles_sound [OF r] have "A \<in> set reached"
    by simp
  with Some r show ?thesis by (simp add: extend_pair_def del: expandRoles.simps)
qed

lemma extend_pair_back:
  assumes "extend_pair c (A, B) g = (None, g1)"
  shows "extend_pair c' (B, A) g1 = (Some CycleError, g1)"
proof -
  from assms obtain b reached where
    b: "map_of g B = Some b" and
    g1: "g1 = AList.update A
           ((case map_of g A of None \<Rightarrow> new_role | Some i \<Rightarrow> i)
              \<lparr>score := score (case map_of g A of None \<Rightarrow> new_role | Some i \<Rightarrow> i) + (score b + 1),
               extends := Some (AList.update B (Conditional (score b + 1) c)
                  (case extends (case map_of g A of None \<Rightarrow> new_role | Some i \<Rightarrow> i) of
                     None \<Rightarrow> [] | Some m \<Rightarrow> m))\<rparr>) g"
    by (auto simp: extend_pair_def Let_def simp del: expandRoles.simps
             split: option.splits sum.splits if_splits)
  define ext where "ext = AList.update B (Conditional (score b + 1) c)
                  (case extends (case map_of g A of None \<Rightarrow> new_role | Some i \<Rightarrow> i) of
                     None \<Rightarrow> [] | Some m \<Rightarrow> m)"
  from g1 obtain a1 where a1: "map_of g1 A = Some a1" and ext1: "extends a1 = Some ext"
    by (simp add: update_conv' ext_def)
  have "B \<in> fst ` set ext"
    by (simp add: ext_def dom_update)
  then obtain x where "(B, x) \<in> set ext" by auto
  with a1 ext1 have edge: "(A, B) \<in> inherits g1 every_extension"
    by (auto simp: inherits_def every_extension_def)
  obtain reached where r: "expandRoles g1 every_extension [A] [] = Inr reached"
    using expandRoles_every_extension [of g1 "[A]" "[]"]
    by (cases "expandRoles g1 every_extension [A] []") auto
  from expandRoles_reachable [OF r] edge have "B \<in> set reached"
    by auto
  with a1 r show ?thesis by (simp add: extend_pair_def del: expandRoles.simps)
qed

lemma extend_pair_missing: "map_of g B = None \<Longrightarrow> extend_pair c (A, B) g = (Some CycleError, g)"
  by (simp add: extend_pair_def)

text \<open>
  Claim C6.  \<open>extendRole(A, A)\<close> fails with \<open>CycleError\<close>; after a successful
  \<open>extendRole(A, B)\<close>, \<open>extendRole(B, A)\<close> fails with \<open>CycleError\<close>; \<open>extendRole\<close> with an
  extender that the store does not have fails with \<open>CycleError\<close>; and every failing call
  for one role and one extender fails with \<open>CycleError\<close> and leaves the store as it was.
\<close>

theorem extendRole_cycle_fails_graph_unchanged:
  "extendRole [A] [A] c g = (Some CycleError, g)
   \<and> (extendRole [A] [B] c g = (None, g1)
        \<longrightarrow> extendRole [B] [A] c' g1 = (Some CycleError, g1))
   \<and> (map_of g B = None \<longrightarrow> extendRole [A] [B] c g = (Some CycleError, g))
   \<and> (extendRole [A] [B] c g = (Some e, g') \<longrightarrow> e = CycleError \<and> g' = g)"
  by (simp add: extendRole_single extend_pair_self extend_pair_back extend_pair_missing)
     (blast dest: extend_pair_failure)


theorem extendRole_cycle_witness:
  "extendRole [''admin''] [''admin''] None three_roles = (Some CycleError, three_roles)
   \<and> extendRole [''admin''] [''user''] None three_roles = (None, admin_extends_user)
   \<and> extendRole [''user''] [''admin''] None admin_extends_user = (Some CycleError, admin_extends_user)
   \<and> map_of three_roles ''nobody'' = None
   \<and> extendRole [''admin''] [''nobody''] None three_roles = (Some CycleError, three_roles)"
proof -
  have ok: "extendRole [''admin''] [''user''] None three_roles = (None, admin_extends_user)"
    by (simp add: extendRole_def extend_pair_def three_roles_def admin_extends_user_def
          new_role_def extensions_of_def every_extension_def Let_def)
  have none: "map_of three_roles ''nobody'' = None"
    by (simp add: three_roles_def)
  from extendRole_cycle_fails_graph_unchanged
         [of "''admin''" None three_roles "''user''" admin_extends_user None]
       extendRole_cycle_fails_graph_unchanged
         [of "''admin''" None three_roles "''nobody''"]
       ok none
  show ?thesis by simp
qed

section \<open>Properties of removeRoles\<close>

lemma number_minus_integers:
  "\<bar>x - y\<bar> \<le> 2 ^ 53 \<Longrightarrow>
   number_minus nearest (Finite (of_int x)) (Finite (of_int y)) = Finite (of_int (x - y))"
proof -
  assume "\<bar>x - y\<bar> \<le> 2 ^ 53"
  then have "\<bar>(of_int (x - y) :: rat)\<bar> \<le> 2 ^ 53"
    by (simp only: of_int_abs [symmetric] of_int_le_numeral_power_cancel_iff)
  then have "safe_integer (of_int x - of_int y)"
    by (simp add: safe_integer_def)
  then show ?thesis by simp
qed

lemma strip_roles_single:
  assumes "map_of g B = Some b" and "map_of g key = Some item"
  shows "strip_roles nearest [B] key g =
           (None, if extend_truthy item B then AList.update key (stripped nearest item b B) g else g)"
  using assms
  by (auto simp: strip_roles_def strip_role_def extend_truthy_def stripped_def get_property_def
           split: option.splits)

lemma strip_loop:
  assumes "map_of g B = Some b" and "\<not> extend_truthy b B"
    and "set ks \<subseteq> fst ` set g" and "distinct ks" and "map_of g A = Some a" and "A \<noteq> B"
  shows "\<exists>g'. forEach (strip_roles nearest [B]) ks g = (None, g')
            \<and> map_of g' B = Some b
            \<and> map_of g' A = Some (if A \<in> set ks \<and> extend_truthy a B then stripped nearest a b B else a)"
  using assms(1,3,4,5)
proof (induction ks arbitrary: g a)
  case Nil
  then show ?case by simp
next
  case (Cons key ks)
  from Cons.prems(2) have "key \<in> fst ` set g" by simp
  then obtain item where item: "map_of g key = Some item"
    by (cases "map_of g key") (auto simp: map_of_eq_None_iff)
  define g' where "g' = (if extend_truthy item B then AList.update key (stripped nearest item b B) g else g)"
  have step: "strip_roles nearest [B] key g = (None, g')"
    using Cons.prems(1) item by (simp add: strip_roles_single g'_def)
  have B': "map_of g' B = Some b"
    using Cons.prems(1) assms(2) item by (auto simp: g'_def update_conv')
  have keys': "set ks \<subseteq> fst ` set g'"
    using Cons.prems(2) by (auto simp: g'_def dom_update)
  have dist: "distinct ks" and fresh: "key \<notin> set ks"
    using Cons.prems(3) by simp_all
  show ?case
  proof (cases "key = A")
    case True
    with item Cons.prems(4) have A': "map_of g' A
        = Some (if extend_truthy a B then stripped nearest a b B else a)"
      by (simp add: g'_def update_conv')
    from Cons.IH [OF B' keys' dist A'] True fresh step show ?thesis
      by auto
  next
    case False
    with item Cons.prems(4) have A': "map_of g' A = Some a"
      by (auto simp: g'_def update_conv')
    from Cons.IH [OF B' keys' dist A'] False step show ?thesis
      by auto
  qed
qed

lemma removeRoles_single:
  assumes "distinct (map fst g)" and "map_of g A = Some a" and "map_of g B = Some b"
    and "A \<noteq> B" and "extend_truthy a B" and "\<not> extend_truthy b B"
  shows "\<exists>g2. removeRoles nearest [B] g = (None, g2) \<and> map_of g2 B = None
            \<and> map_of g2 A = Some (stripped nearest a b B)"
proof -
  have "A \<in> set (map fst g)"
    using assms(2) by (force dest: map_of_SomeD)
  with strip_loop [where ks = "map fst g" and nearest = nearest, OF assms(3,6) _ assms(1,2,4)]
    assms(5) obtain g' where
    "forEach (strip_roles nearest [B]) (map fst g) g = (None, g')"
    "map_of g' A = Some (stripped nearest a b B)"
    by auto
  with assms(4) show ?thesis
    by (simp add: removeRoles_def delete_conv')
qed

text \<open>
  Claim C7, as stated, fails on \<open>removeRoles\<close>, whatever \<open>extendRole\<close> does.  \<open>admin\<close> had the
  score 0 and extends \<open>user\<close>, whose score is 1; the extension has raised the score of
  \<open>admin\<close> by the score of \<open>user\<close> plus one, to 2, as the claim says.  \<open>removeRoles(['user'])\<close>
  takes off the score of \<open>user\<close>, 1: the score of \<open>admin\<close> ends at 1, not at 0.
\<close>

theorem score_round_trip_counterexample:
  "map_option score_number (map_of admin_raised ''admin'') = Some (Finite (0 + (1 + 1)))
   \<and> map_option score_number (map_of admin_raised ''user'') = Some (Finite 1)
   \<and> fst (removeRoles rounding_not_reached [''user''] admin_raised) = None
   \<and> map_option score_number
         (map_of (snd (removeRoles rounding_not_reached [''user''] admin_raised)) ''admin'')
       = Some (Finite 1)
   \<and> Finite 1 \<noteq> Finite 0"
  by (simp add: removeRoles_def strip_roles_def strip_role_def extend_truthy_def get_property_def
        admin_raised_def safe_integer_def)

text \<open>
  Claim C7, amended.  In every store in which the role \<open>A\<close> has a truthy entry for the role
  \<open>B\<close> in its \<open>$extend\<close>, and \<open>B\<close> is another role of the store with no truthy entry for
  itself, \<open>removeRoles([B])\<close> succeeds, deletes \<open>B\<close>, strips it from the \<open>$extend\<close> of \<open>A\<close> and
  reduces the score of \<open>A\<close> by the score of \<open>B\<close>.  So, for integer scores: after an extension
  that had raised the score of \<open>A\<close> from \<open>i\<close> by the score \<open>j\<close> of \<open>B\<close> plus one, the score of
  \<open>A\<close> ends at \<open>i + 1\<close>, one above its value before the extension; it is restored to \<open>i\<close>
  when the extension had raised it by exactly the score of \<open>B\<close>.
\<close>

theorem removeRoles_reduces_score_by_removed_score:
  assumes "distinct (map fst g)" and "map_of g A = Some a" and "map_of g B = Some b"
    and "A \<noteq> B" and "extend_truthy a B" and "\<not> extend_truthy b B"
  shows "\<exists>g2. removeRoles nearest [B] g = (None, g2)
           \<and> map_of g2 B = None
           \<and> map_of g2 A = Some (stripped nearest a b B)
           \<and> (score_number a = Finite (of_int (i + (j + 1))) \<and> score_number b = Finite (of_int j)
                \<and> \<bar>i + 1\<bar> \<le> 2 ^ 53
              \<longrightarrow> map_option score_number (map_of g2 A) = Some (Finite (of_int (i + 1))))
           \<and> (score_number a = Finite (of_int (i + j)) \<and> score_number b = Finite (of_int j)
                \<and> \<bar>i\<bar> \<le> 2 ^ 53
              \<longrightarrow> map_option score_number (map_of g2 A) = Some (Finite (of_int i)))"
proof -
  from removeRoles_single [OF assms] obtain g2 where
    g2: "removeRoles nearest [B] g = (None, g2)" "map_of g2 B = None"
      "map_of g2 A = Some (stripped nearest a b B)"
    by blast
  have above: "number_minus nearest (Finite (of_int (i + (j + 1)))) (Finite (of_int j))
               = Finite (of_int (i + 1))" if "\<bar>i + 1\<bar> \<le> 2 ^ 53"
    using number_minus_integers [of "i + (j + 1)" j nearest] that by simp
  have restored: "number_minus nearest (Finite (of_int (i + j))) (Finite (of_int j))
               = Finite (of_int i)" if "\<bar>i\<bar> \<le> 2 ^ 53"
    using number_minus_integers [of "i + j" j nearest] that by simp
  from g2 above restored show ?thesis
    by (auto simp: stripped_def)
qed

theorem removeRoles_reduces_score_witness:
  "distinct (map fst admin_raised)
   \<and> map_of admin_raised ''admin''
       = Some \<lparr>extend_object = Some [(''user'', JObj [])], score_number = Finite (of_int (0 + (1 + 1))),
               other_properties = []\<rparr>
   \<and> map_of admin_raised ''user''
       = Some \<lparr>extend_object = None, score_number = Finite (of_int 1), other_properties = []\<rparr>
   \<and> ''admin'' \<noteq> ''user''
   \<and> extend_truthy \<lparr>extend_object = Some [(''user'', JObj [])],
                     score_number = Finite (of_int (0 + (1 + 1))), other_properties = []\<rparr> ''user''
   \<and> \<not> extend_truthy \<lparr>extend_object = None, score_number = Finite (of_int 1),
                       other_properties = []\<rparr> ''user''
   \<and> removeRoles rounding_not_reached [''user''] admin_raised
       = (None, [(''admin'', \<lparr>extend_object = Some [], score_number = Finite 1,
                               other_properties = []\<rparr>)])"
proof -
  have d: "distinct (map fst admin_raised)"
    and a: "map_of admin_raised ''admin''
       = Some \<lparr>extend_object = Some [(''user'', JObj [])], score_number = Finite (of_int (0 + (1 + 1))),
               other_properties = []\<rparr>"
    and b: "map_of admin_raised ''user''
       = Some \<lparr>extend_object = None, score_number = Finite (of_int 1), other_properties = []\<rparr>"
    by (simp_all add: admin_raised_def)
  have n: "''admin'' \<noteq> ''user''" by simp
  have t: "extend_truthy \<lparr>extend_object = Some [(''user'', JObj [])],
                     score_number = Finite (of_int (0 + (1 + 1))), other_properties = []\<rparr> ''user''"
    and f: "\<not> extend_truthy \<lparr>extend_object = None, score_number = Finite (of_int 1),
                       other_properties = []\<rparr> ''user''"
    by (simp_all add: extend_truthy_def get_property_def)
  have r: "removeRoles rounding_not_reached [''user''] admin_raised
       = (None, [(''admin'', \<lparr>extend_object = Some [], score_number = Finite 1,
                               other_properties = []\<rparr>)])"
    by (simp add: removeRoles_def strip_roles_def strip_role_def extend_truthy_def get_property_def
          admin_raised_def safe_integer_def)
  from removeRoles_reduces_score_by_removed_score
         [OF d a b n t f, of rounding_not_reached 0 1] d a b n t f r
  show ?thesis by blast
qed


section \<open>Properties of the query traversal\<close>


lemma collect_grants_returns:
  "\<forall>gr \<in> set grs. matches gr \<longrightarrow> (\<exists>b. accepts gr = Inr b) \<Longrightarrow>
   \<exists>out. collect_grants matches accepts grs attrs = Inr out"
  by (induction grs arbitrary: attrs) auto


lemma collect_roles_returns:
  "\<forall>r \<in> set rs. \<forall>item. map_of g r = Some item \<longrightarrow>
         (\<forall>gr \<in> set (grants item). matches gr \<longrightarrow> (\<exists>b. accepts gr = Inr b)) \<Longrightarrow>
   \<exists>out. collect_roles matches accepts g rs attrs = Inr out"
proof (induction rs arbitrary: attrs)
  case Nil
  then show ?case by simp
next
  case (Cons r rs)
  show ?case
  proof (cases "map_of g r")
    case None
    with Cons show ?thesis by simp
  next
    case (Some item)
    with Cons.prems have "\<forall>gr \<in> set (grants item). matches gr \<longrightarrow> (\<exists>b. accepts gr = Inr b)"
      by simp
    from collect_grants_returns [OF this] obtain attrs' where
      "collect_grants matches accepts (grants item) attrs = Inr attrs'" by blast
    with Some Cons show ?thesis by simp
  qed
qed

lemma expandRoles_same_roles:
  assumes "expandRoles g follows roles [] = Inr res" and "set roles' = set roles"
  shows "\<exists>res'. expandRoles g follows roles' [] = Inr res' \<and> set res' = set res"
proof (cases "expandRoles g follows roles' []")
  case (Inl e)
  then obtain r where r: "r \<in> (inherits g follows)\<^sup>* `` set roles'"
    and raises: "extensions_of g follows r = Inl e"
    by (blast dest: expandRoles_raises)
  from r assms have "r \<in> set res"
    by (simp add: expandRoles_reachable)
  with expandRoles_sound [OF assms(1)] raises show ?thesis by auto
next
  case (Inr res')
  with assms show ?thesis
    by (simp add: expandRoles_reachable)
qed




lemmas query_eval =
  getUnionAttrsOfRoles_def profile_store_def profile_query_def video_query_def
  status_evaluator_def literal_glob_def extensions_of_def grant_matches_def grant_accepted_def
  generic_action_def union_attributes_def




text \<open>
  Claim C1.  The \<open>Permission\<close> that \<open>permission(queryInfo)\<close> returns carries the resolved
  attribute union and has \<open>granted\<close> equal to \<open>attributes.length > 0\<close>.  A query for which
  no grant of a role reached matches is not an error: it returns the permission with
  \<open>granted\<close> false and the empty attribute list.
\<close>

theorem permission_granted_iff_attributes:
  "(permission ev mg g q = Inr p \<longrightarrow>
      getUnionAttrsOfRoles ev mg g q = Inr (p_attributes p)
      \<and> granted p = (length (p_attributes p) > 0))
   \<and> (expandRoles g (extension_holds ev (q_context q)) (q_role q) [] = Inr roles
        \<and> (\<forall>r \<in> set roles. matching_grants mg g q r = {})
      \<longrightarrow> permission ev mg g q = Inr \<lparr>p_query = q, p_attributes = []\<rparr>
          \<and> \<not> granted \<lparr>p_query = q, p_attributes = []\<rparr>)"
proof (intro conjI impI)
  assume "permission ev mg g q = Inr p"
  then show "getUnionAttrsOfRoles ev mg g q = Inr (p_attributes p)"
    by (auto simp: permission_def split: sum.splits)
next
  show "granted p = (length (p_attributes p) > 0)" by (simp add: granted_def)
next
  assume h: "expandRoles g (extension_holds ev (q_context q)) (q_role q) [] = Inr roles
        \<and> (\<forall>r \<in> set roles. matching_grants mg g q r = {})"
  then have "expandRoles g (extension_holds ev (q_context q)) (q_role q) [] = Inr roles"
    by simp
  from expandRoles_same_roles [OF this, of "sort (remdups (q_role q))"] obtain reached where
    reached: "expandRoles g (extension_holds ev (q_context q)) (sort (remdups (q_role q))) []
              = Inr reached"
    and same: "set reached = set roles"
    by auto
  have none: "collect_grants (grant_matches mg q) accepts grs attrs = Inr attrs"
    if "\<forall>gr \<in> set grs. \<not> grant_matches mg q gr" for accepts grs attrs
    using that by (induction grs) auto
  have "collect_roles (grant_matches mg q) accepts g rs [] = Inr []"
    if "\<forall>r \<in> set rs. matching_grants mg g q r = {}" for accepts rs
    using that
    by (induction rs) (auto simp: matching_grants_def none split: option.splits)
  with h reached same show "permission ev mg g q = Inr \<lparr>p_query = q, p_attributes = []\<rparr>"
    by (simp add: permission_def getUnionAttrsOfRoles_def del: expandRoles.simps)
  show "\<not> granted \<lparr>p_query = q, p_attributes = []\<rparr>" by (simp add: granted_def)
qed

theorem permission_granted_witness:
  "permission status_evaluator literal_glob profile_store profile_query
     = Inr \<lparr>p_query = profile_query, p_attributes = [''role'', ''*'', ''!password'']\<rparr>
   \<and> granted \<lparr>p_query = profile_query, p_attributes = [''role'', ''*'', ''!password'']\<rparr>
   \<and> expandRoles profile_store (extension_holds status_evaluator (q_context video_query))
         (q_role video_query) [] = Inr [''admin'', ''user'']
   \<and> matching_grants literal_glob profile_store video_query ''admin'' = {}
   \<and> matching_grants literal_glob profile_store video_query ''user'' = {}
   \<and> permission status_evaluator literal_glob profile_store video_query
       = Inr \<lparr>p_query = video_query, p_attributes = []\<rparr>
   \<and> \<not> granted \<lparr>p_query = video_query, p_attributes = []\<rparr>"
proof -
  have one: "permission status_evaluator literal_glob profile_store profile_query
     = Inr \<lparr>p_query = profile_query, p_attributes = [''role'', ''*'', ''!password'']\<rparr>"
    by (simp add: permission_def query_eval)
  have roles: "expandRoles profile_store (extension_holds status_evaluator (q_context video_query))
         (q_role video_query) [] = Inr [''admin'', ''user'']"
    by (simp add: query_eval)
  have none: "matching_grants literal_glob profile_store video_query ''admin'' = {}"
    "matching_grants literal_glob profile_store video_query ''user'' = {}"
    by (simp_all add: matching_grants_def query_eval)
  from permission_granted_iff_attributes
         [of status_evaluator literal_glob profile_store profile_query
             "\<lparr>p_query = profile_query, p_attributes = [''role'', ''*'', ''!password'']\<rparr>"]
       permission_granted_iff_attributes
         [of status_evaluator literal_glob profile_store video_query _ "[''admin'', ''user'']"]
       one roles none
  show ?thesis by simp
qed

section \<open>Properties of the attribute filter\<close>

lemma filter_fields_no_patterns: "filter_fields [] prefix fs = []"
  by (induction "[] :: string list" prefix fs rule: filter_fields.induct)
     (auto simp: admitted_def split: jsval.splits)

lemma attribute_patterns_strings: "attribute_patterns (JArr (map JStr ps)) = ps"
  by (induction ps) auto

lemma three_patterns_sorted:
  assumes "mset ps = mset [''*'', ''!b.*'', ''b.c'']"
  shows "sort_key specificity (filter (\<lambda>p. p \<noteq> []) ps) = [''*'', ''!b.*'', ''b.c'']"
proof -
  from assms have "set ps = set [''*'', ''!b.*'', ''b.c'']" by (rule mset_eq_setD)
  then have "filter (\<lambda>p. p \<noteq> []) ps = ps"
    by (auto simp: filter_id_conv)
  moreover have "sort_key specificity ps = [''*'', ''!b.*'', ''b.c'']"
  proof (rule properties_for_sort_key)
    show "mset [''*'', ''!b.*'', ''b.c''] = mset ps" using assms by simp
    show "sorted (map specificity [''*'', ''!b.*'', ''b.c''])"
      by (simp add: specificity_def)
    fix k assume k: "k \<in> set [''*'', ''!b.*'', ''b.c'']"
    have "mset (filter (\<lambda>x. specificity k = specificity x) ps)
          = mset (filter (\<lambda>x. specificity k = specificity x) [''*'', ''!b.*'', ''b.c''])"
      by (simp only: mset_filter assms)
    moreover have one: "filter (\<lambda>x. specificity k = specificity x) [''*'', ''!b.*'', ''b.c''] = [k]"
      using k by (auto simp: specificity_def)
    ultimately have "mset (filter (\<lambda>x. specificity k = specificity x) ps) = {#k#}"
      by simp
    then have "filter (\<lambda>x. specificity k = specificity x) ps = [k]"
      by (simp only: mset_single_iff)
    with one show "filter (\<lambda>x. specificity k = specificity x) [''*'', ''!b.*'', ''b.c'']
               = filter (\<lambda>x. specificity k = specificity x) ps"
      by simp
  qed
  ultimately show ?thesis by simp
qed

lemma nested_data_filtered:
  "JObj (filter_fields [''*'', ''!b.*'', ''b.c''] [] (fields_of nested_data)) = filtered_nested_data"
  by (simp add: nested_data_def filtered_nested_data_def admitted_def)

lemma nested_data_three_patterns:
  assumes "mset ps = mset [''*'', ''!b.*'', ''b.c'']"
  shows "AccessControl_filter nested_data (JArr (map JStr ps)) = filtered_nested_data"
proof -
  from assms have sorted: "sort_key specificity (filter (\<lambda>p. p \<noteq> []) ps) = [''*'', ''!b.*'', ''b.c'']"
    by (rule three_patterns_sorted)
  have "AccessControl_filter nested_data attrs = filter_object nested_data (attribute_patterns attrs)"
    for attrs
    by (simp add: AccessControl_filter_def filterAll_def nested_data_def)
  then have "AccessControl_filter nested_data (JArr (map JStr ps)) = filter_object nested_data ps"
    by (simp only: attribute_patterns_strings)
  also have "\<dots> = JObj (filter_fields [''*'', ''!b.*'', ''b.c''] [] (fields_of nested_data))"
    by (simp only: filter_object_def Let_def sorted)
  also have "\<dots> = filtered_nested_data"
    by (rule nested_data_filtered)
  finally show ?thesis .
qed

text \<open>
  Claim C8.  For the data object \<open>{a:1, b:{c:2, d:3}}\<close> and every permutation of the
  patterns \<open>"*"\<close>, \<open>"!b.*"\<close>, \<open>"b.c"\<close>, \<open>filter\<close> yields \<open>{a:1, b:{c:2}}\<close>: the patterns are
  applied in the order of their specificity, not in the order given.  For every data object,
  \<open>filter\<close> with the empty pattern list, with the empty string, or with a list holding the
  empty string yields the empty object.
\<close>

theorem filter_sorts_patterns_by_specificity:
  "(mset ps = mset [''*'', ''!b.*'', ''b.c'']
      \<longrightarrow> AccessControl_filter nested_data (JArr (map JStr ps)) = filtered_nested_data)
   \<and> AccessControl_filter (JObj fs) (JArr []) = JObj []
   \<and> AccessControl_filter (JObj fs) (JStr '''') = JObj []
   \<and> AccessControl_filter (JObj fs) (JArr [JStr '''']) = JObj []"
  by (simp add: nested_data_three_patterns)
     (simp add: AccessControl_filter_def filterAll_def filter_object_def filter_fields_no_patterns)

theorem filter_sorts_patterns_witness:
  "mset [''b.c'', ''*'', ''!b.*''] = mset [''*'', ''!b.*'', ''b.c'']
   \<and> AccessControl_filter nested_data (JArr [JStr ''b.c'', JStr ''*'', JStr ''!b.*'']) = filtered_nested_data
   \<and> AccessControl_filter nested_data (JArr []) = JObj []
   \<and> AccessControl_filter nested_data (JStr '''') = JObj []"
  using filter_sorts_patterns_by_specificity [of "[''b.c'', ''*'', ''!b.*'']"]
        filter_sorts_patterns_by_specificity [of _ "fields_of nested_data"]
  by (simp add: nested_data_def)

section \<open>The filter leaves the heap of the caller alone\<close>

lemma store_extends:
  "store_value v h = (r, h') \<Longrightarrow> \<exists>suffix. h' = h @ suffix"
  "store_list xs h = (rs, h') \<Longrightarrow> \<exists>suffix. h' = h @ suffix"
  "store_fields fs h = (krs, h') \<Longrightarrow> \<exists>suffix. h' = h @ suffix"
proof (induction v h and xs h and fs h arbitrary: r h' and rs h' and krs h'
       rule: store_value_store_list_store_fields.induct)
  case (6 xs h)
  then show ?case by (fastforce split: prod.splits)
next
  case (7 fs h)
  then show ?case by (fastforce split: prod.splits)
next
  case (9 x xs h)
  then show ?case by (fastforce split: prod.splits)
next
  case (11 k x fs h)
  then show ?case by (fastforce split: prod.splits)
qed auto

lemma those_map_cong:
  assumes "those (map f xs) = Some ys" and "\<And>x y. x \<in> set xs \<Longrightarrow> f x = Some y \<Longrightarrow> g x = Some y"
  shows "those (map g xs) = Some ys"
  using assms
  by (induction xs arbitrary: ys) (auto split: option.splits)

lemma load_append: "load h n r = Some v \<Longrightarrow> load (h @ suffix) n r = Some v"
proof (induction n arbitrary: r v)
  case 0
  then show ?case by (cases r) auto
next
  case (Suc n)
  show ?case
  proof (cases r)
    case (HRef a)
    with Suc.prems have a: "a < length h" by (auto split: if_splits)
    show ?thesis
    proof (cases "h ! a")
      case (HArr xs)
      with Suc.prems HRef a obtain ys where
        ys: "those (map (load h n) xs) = Some ys" and v: "v = JArr ys"
        by auto
      from ys have "those (map (load (h @ suffix) n) xs) = Some ys"
        by (rule those_map_cong) (rule Suc.IH)
      with HRef HArr a v show ?thesis by (simp add: nth_append)
    next
      case (HObj fs)
      with Suc.prems HRef a obtain ys where
        ys: "those (map (\<lambda>(k, v). map_option (Pair k) (load h n v)) fs) = Some ys" and v: "v = JObj ys"
        by auto
      from ys have "those (map (\<lambda>(k, v). map_option (Pair k) (load (h @ suffix) n v)) fs) = Some ys"
        by (rule those_map_cong) (auto dest: Suc.IH)
      with HRef HObj a v show ?thesis by (simp add: nth_append)
    qed
  qed (use Suc.prems in auto)
qed

lemma filter_result_is_object:
  "(\<exists>fs. AccessControl_filter v attrs = JObj fs) \<or> (\<exists>xs. AccessControl_filter v attrs = JArr xs)"
  by (cases v) (simp_all add: AccessControl_filter_def filterAll_def filter_object_def)

lemma store_object_fresh:
  assumes "store_value v h = (r, h')" and "(\<exists>fs. v = JObj fs) \<or> (\<exists>xs. v = JArr xs)"
  shows "\<exists>a. r = HRef a \<and> length h \<le> a \<and> a < length h'"
  using assms store_extends(2,3)
  by (fastforce split: prod.splits)


lemma those_fields_cong:
  assumes "those (map (\<lambda>(k, v). map_option (Pair k) (f v)) kvs) = Some fs"
    and "\<And>v y. f v = Some y \<Longrightarrow> g v = Some y"
  shows "those (map (\<lambda>(k, v). map_option (Pair k) (g v)) kvs) = Some fs"
  using assms(1)
  by (induction kvs arbitrary: fs) (auto split: option.splits dest: assms(2))

lemma load_more_fuel: "load h n r = Some v \<Longrightarrow> n \<le> m \<Longrightarrow> load h m r = Some v"
proof (induction n arbitrary: r v m)
  case 0
  then show ?case by (cases r) auto
next
  case (Suc n)
  from Suc.prems(2) obtain m' where m: "m = Suc m'" and le: "n \<le> m'"
    by (cases m) auto
  show ?case
  proof (cases r)
    case (HRef a)
    with Suc.prems have a: "a < length h" by (auto split: if_splits)
    show ?thesis
    proof (cases "h ! a")
      case (HArr xs)
      with Suc.prems HRef a obtain ys where
        ys: "those (map (load h n) xs) = Some ys" and v: "v = JArr ys"
        by auto
      from ys have "those (map (load h m') xs) = Some ys"
        by (rule those_map_cong) (rule Suc.IH [OF _ le])
      with HRef HArr a v m show ?thesis by simp
    next
      case (HObj fs)
      with Suc.prems HRef a obtain ys where
        ys: "those (map (\<lambda>(k, v). map_option (Pair k) (load h n v)) fs) = Some ys" and v: "v = JObj ys"
        by auto
      from ys have "those (map (\<lambda>(k, v). map_option (Pair k) (load h m' v)) fs) = Some ys"
        by (rule those_fields_cong) (rule Suc.IH [OF _ le])
      with HRef HObj a v m show ?thesis by simp
    qed
  qed (use Suc.prems in auto)
qed

lemma store_then_load:
  "store_value v h = (r, h') \<Longrightarrow> \<exists>n. load h' n r = Some v"
  "store_list xs h = (rs, h') \<Longrightarrow> \<exists>n. those (map (load h' n) rs) = Some xs"
  "store_fields fs h = (krs, h') \<Longrightarrow>
     \<exists>n. those (map (\<lambda>(k, v). map_option (Pair k) (load h' n v)) krs) = Some fs"
proof (induction v h and xs h and fs h arbitrary: r h' and rs h' and krs h'
       rule: store_value_store_list_store_fields.induct)
  case (6 xs h)
  then obtain vs h1 where s: "store_list xs h = (vs, h1)"
    and r: "r = HRef (length h1)" and h': "h' = h1 @ [HArr vs]"
    by (auto split: prod.splits)
  from "6.IH" [OF s] obtain n where "those (map (load h1 n) vs) = Some xs" by blast
  then have "those (map (load h' n) vs) = Some xs"
    unfolding h' by (rule those_map_cong) (rule load_append)
  with r h' have "load h' (Suc n) r = Some (JArr xs)" by simp
  then show ?case by blast
next
  case (7 fs h)
  then obtain kvs h1 where s: "store_fields fs h = (kvs, h1)"
    and r: "r = HRef (length h1)" and h': "h' = h1 @ [HObj kvs]"
    by (auto split: prod.splits)
  from "7.IH" [OF s] obtain n where
    "those (map (\<lambda>(k, v). map_option (Pair k) (load h1 n v)) kvs) = Some fs" by blast
  then have "those (map (\<lambda>(k, v). map_option (Pair k) (load h' n v)) kvs) = Some fs"
    unfolding h' by (rule those_fields_cong) (rule load_append)
  with r h' have "load h' (Suc n) r = Some (JObj fs)" by simp
  then show ?case by blast
next
  case (9 x xs h)
  then obtain v h1 vs where s1: "store_value x h = (v, h1)"
    and s2: "store_list xs h1 = (vs, h')" and rs: "rs = v # vs"
    by (auto split: prod.splits)
  from "9.IH"(1) [OF s1] obtain n1 where n1: "load h1 n1 v = Some x" by blast
  from "9.IH"(2) [OF s1 [symmetric] s2] obtain n2 where
    n2: "those (map (load h' n2) vs) = Some xs" by blast
  from store_extends(2) [OF s2] obtain suffix where "h' = h1 @ suffix" by blast
  with n1 have "load h' n1 v = Some x" by (simp add: load_append)
  then have "load h' (max n1 n2) v = Some x" by (rule load_more_fuel) simp
  moreover from n2 have "those (map (load h' (max n1 n2)) vs) = Some xs"
    by (rule those_map_cong) (erule load_more_fuel, simp)
  ultimately show ?case using rs by (intro exI [of _ "max n1 n2"]) simp
next
  case (11 k x fs h)
  then obtain v h1 kvs where s1: "store_value x h = (v, h1)"
    and s2: "store_fields fs h1 = (kvs, h')" and krs: "krs = (k, v) # kvs"
    by (auto split: prod.splits)
  from "11.IH"(1) [OF s1] obtain n1 where n1: "load h1 n1 v = Some x" by blast
  from "11.IH"(2) [OF s1 [symmetric] s2] obtain n2 where
    n2: "those (map (\<lambda>(k, v). map_option (Pair k) (load h' n2 v)) kvs) = Some fs" by blast
  from store_extends(3) [OF s2] obtain suffix where "h' = h1 @ suffix" by blast
  with n1 have "load h' n1 v = Some x" by (simp add: load_append)
  then have "load h' (max n1 n2) v = Some x" by (rule load_more_fuel) simp
  moreover from n2 have
    "those (map (\<lambda>(k, v). map_option (Pair k) (load h' (max n1 n2) v)) kvs) = Some fs"
    by (rule those_fields_cong) (erule load_more_fuel, simp)
  ultimately show ?case using krs by (intro exI [of _ "max n1 n2"]) simp
qed auto

text \<open>
  Claim C9.  \<open>filter\<close> never mutates the caller's data object.  Whenever the data can be
  read from the heap, \<open>filter\<close> returns; every cell of the heap before the call is the same
  after it, so the data reads as it did; and the result is a reference to a cell that did
  not exist before, from which the filtered value reads.
\<close>

theorem filter_leaves_data_unchanged:
  "load h fuel data = Some v \<longrightarrow>
     (\<exists>a h'. filter_in_heap fuel data attrs h = Some (HRef a, h')
        \<and> take (length h) h' = h
        \<and> load h' fuel data = Some v
        \<and> length h \<le> a \<and> a < length h'
        \<and> (\<exists>n. load h' n (HRef a) = Some (AccessControl_filter v attrs)))"
proof
  assume v: "load h fuel data = Some v"
  obtain r h' where s: "store_value (AccessControl_filter v attrs) h = (r, h')"
    by (cases "store_value (AccessControl_filter v attrs) h") auto
  from store_extends(1) [OF s] obtain suffix where h': "h' = h @ suffix" by blast
  from store_object_fresh [OF s filter_result_is_object] obtain a where
    a: "r = HRef a" "length h \<le> a" "a < length h'" by blast
  from store_then_load(1) [OF s] a(1) have
    readback: "\<exists>n. load h' n (HRef a) = Some (AccessControl_filter v attrs)" by simp
  from v s have "filter_in_heap fuel data attrs h = Some (HRef a, h')"
    by (simp add: filter_in_heap_def a(1))
  moreover have "take (length h) h' = h" by (simp add: h')
  moreover have "load h' fuel data = Some v"
    unfolding h' using v by (rule load_append)
  ultimately show "\<exists>a h'. filter_in_heap fuel data attrs h = Some (HRef a, h')
        \<and> take (length h) h' = h
        \<and> load h' fuel data = Some v
        \<and> length h \<le> a \<and> a < length h'
        \<and> (\<exists>n. load h' n (HRef a) = Some (AccessControl_filter v attrs))"
    using a(2,3) readback by blast
qed

theorem filter_leaves_data_unchanged_witness:
  "load nested_heap (Suc (Suc 0)) (HRef 1) = Some nested_data
   \<and> filter_in_heap (Suc (Suc 0)) (HRef 1) (JArr [JStr ''*'', JStr ''!b.*'', JStr ''b.c'']) nested_heap
       = Some (HRef 3, nested_heap_filtered)
   \<and> take (length nested_heap) nested_heap_filtered = nested_heap
   \<and> load nested_heap_filtered (Suc (Suc 0)) (HRef 1) = Some nested_data
   \<and> load nested_heap_filtered (Suc (Suc 0)) (HRef 3) = Some filtered_nested_data"
proof -
  have one: "load nested_heap (Suc (Suc 0)) (HRef 1) = Some nested_data"
    by (simp add: nested_heap_def nested_data_def)
  have f: "AccessControl_filter nested_data (JArr [JStr ''*'', JStr ''!b.*'', JStr ''b.c''])
           = filtered_nested_data"
    using nested_data_three_patterns [of "[''*'', ''!b.*'', ''b.c'']"] by simp
  have two: "filter_in_heap (Suc (Suc 0)) (HRef 1) (JArr [JStr ''*'', JStr ''!b.*'', JStr ''b.c'']) nested_heap
       = Some (HRef 3, nested_heap_filtered)"
  proof -
    have "store_value filtered_nested_data nested_heap = (HRef 3, nested_heap_filtered)"
      by (simp add: filtered_nested_data_def nested_heap_def nested_heap_filtered_def)
    then show ?thesis
      by (simp only: filter_in_heap_def one f option.case)
  qed
  have three: "load nested_heap_filtered (Suc (Suc 0)) (HRef 3) = Some filtered_nested_data"
    by (simp add: nested_heap_def nested_heap_filtered_def filtered_nested_data_def)
  from filter_leaves_data_unchanged
         [of nested_heap "Suc (Suc 0)" "HRef 1" nested_data
             "JArr [JStr ''*'', JStr ''!b.*'', JStr ''b.c'']"]
       one two three
  show ?thesis by auto
qed

end
